theory Spec2Isabelle
  imports Main "HOL-Library.Signed_Division"
begin

section \<open>Observation simulation (simulateObservations.h)\<close>

text \<open>
  A shallow embedding of \<^verbatim>\<open>Tudat/Astrodynamics/ObservationModels/simulateObservations.h\<close>.

  \<^item> A \<^verbatim>\<open>std::map<K, V>\<close> is the list of its entries in iteration order (ascending keys);
    \<^verbatim>\<open>m.at(k)\<close> is a lookup that throws when the key is absent, \<^verbatim>\<open>m[k] = v\<close> is
    \<open>assign\<close>, which keeps the entries ordered by key.
  \<^item> A \<^verbatim>\<open>boost::shared_ptr\<close> is an \<open>option\<close>, \<open>None\<close> being the null pointer.
  \<^item> A \<^verbatim>\<open>boost::function\<close> is an \<open>option\<close> too, \<open>None\<close> being the empty function object.
  \<^item> An \<^verbatim>\<open>Eigen\<close> column vector is the list of its coefficients. The scalar type
    (\<^verbatim>\<open>ObservationScalarType\<close>, \<^verbatim>\<open>double\<close>) is a type parameter; of its arithmetic the
    code uses the sum only. Where a statement needs algebraic laws of the sum the scalar
    type is taken in the corresponding type class, so rounding is not part of this model.
  \<^item> \<^verbatim>\<open>TimeType\<close> is a type parameter (the noise functions take the same type).
  \<^item> Every \<^verbatim>\<open>throw\<close> is a value \<open>Inl e\<close> of the result type \<open>error + 'r\<close>.
\<close>

subsection \<open>Failures\<close>

datatype error =
    NullSimulatorError
      \<comment> \<open>runtime_error "Error when simulating single observation set, Observation simulator is NULL"\<close>
  | NullModelError
      \<comment> \<open>the simulator has no observation model for the link ends\<close>
  | MissingSimulatorError
      \<comment> \<open>std::out_of_range of \<^verbatim>\<open>observationSimulators.at( observable )\<close>\<close>
  | NullPointerDereference
      \<comment> \<open>a member function called through a null simulator or model pointer\<close>
  | NullDynamicCastError int
      \<comment> \<open>runtime_error "Error when simulating observation: dynamic case to size N is NULL"\<close>
  | UnsupportedDimensionError int
      \<comment> \<open>runtime_error "Error, simulation of observations not yet implemented for size N"\<close>
  | DivisionByZero
      \<comment> \<open>integer division by an observable size of 0\<close>
  | InconsistentSampleCountError
      \<comment> \<open>runtime_error "Error when adding noise to observations, input data is inconsistent"\<close>
  | MissingNoiseFunctionError
      \<comment> \<open>std::out_of_range of \<^verbatim>\<open>noiseFunctions.at( observable ).at( linkEnds )\<close>\<close>
  | BadFunctionCall
      \<comment> \<open>boost::bad_function_call: an empty function object was called\<close>
  | InconsistentNoiseSizeError
      \<comment> \<open>runtime_error "Error when adding noise to observations, noise size is inconsistent"\<close>
  | EigenAssertion
      \<comment> \<open>Eigen's size assertion (vector of negative size, segment and summand of different sizes)\<close>
  | MissingObservableNoiseError
      \<comment> \<open>std::out_of_range of \<^verbatim>\<open>noiseFunctions.at( observable )\<close> in the per-observable overload\<close>
  | EmptyNoiseFunctionError
      \<comment> \<open>runtime_error "Error when setting observation noise function, missing observable"\<close>

subsection \<open>std::map\<close>

text \<open>\<^verbatim>\<open>m[ k ] = v\<close>: the entry is replaced, or inserted at its place in key order.\<close>

fun assign :: "'k::linorder \<Rightarrow> 'v \<Rightarrow> ('k \<times> 'v) list \<Rightarrow> ('k \<times> 'v) list" where
  "assign k v [] = [(k, v)]"
| "assign k v ((k', v') # m) =
     (if k < k' then (k, v) # (k', v') # m
      else if k = k' then (k, v) # m
      else (k', v') # assign k v m)"

text \<open>\<^verbatim>\<open>m[ k1 ][ k2 ] = v\<close>: \<^verbatim>\<open>m[ k1 ]\<close> creates an empty inner map when \<open>k1\<close> is new.\<close>

definition assign2 ::
  "'k::linorder \<Rightarrow> 'l::linorder \<Rightarrow> 'v \<Rightarrow> ('k \<times> ('l \<times> 'v) list) list \<Rightarrow> ('k \<times> ('l \<times> 'v) list) list"
  where
  "assign2 k1 k2 v m =
     assign k1 (assign k2 v (case map_of m k1 of None \<Rightarrow> [] | Some inner \<Rightarrow> inner)) m"

text \<open>The invariant of a \<^verbatim>\<open>std::map\<close>: keys strictly ascending.\<close>

definition is_map :: "('k::linorder \<times> 'v) list \<Rightarrow> bool" where
  "is_map m = sorted_wrt (<) (map fst m)"

definition is_map2 :: "('k::linorder \<times> ('l::linorder \<times> 'v) list) list \<Rightarrow> bool" where
  "is_map2 m = (is_map m \<and> list_all (\<lambda>(k, inner). is_map inner) m)"

text \<open>The (outer key, inner key) pairs a nested map is iterated over.\<close>

definition keyPairs :: "('k \<times> ('l \<times> 'v) list) list \<Rightarrow> ('k \<times> 'l) set" where
  "keyPairs m = {(k, l). \<exists>inner v. (k, inner) \<in> set m \<and> (l, v) \<in> set inner}"

definition keyStructure :: "('k \<times> ('l \<times> 'v) list) list \<Rightarrow> ('k \<times> 'l list) list" where
  "keyStructure m = map (\<lambda>(k, inner). (k, map fst inner)) m"

definition lookup2 :: "('k \<times> ('l \<times> 'v) list) list \<Rightarrow> 'k \<Rightarrow> 'l \<Rightarrow> 'v option" where
  "lookup2 m k l = (case map_of m k of None \<Rightarrow> None | Some inner \<Rightarrow> map_of inner l)"

subsection \<open>Data model\<close>

text \<open>\<^verbatim>\<open>LinkEndType\<close> is an enumeration declared outside this header: its integer value.\<close>

type_synonym LinkEndType = int

text \<open>
  \<^verbatim>\<open>ObservationSimulationTimeSettings\<close> and the one class derived from it here. The first
  constructor stands for an object of the base class or of any other derived class: all
  this header can see of it is \<^verbatim>\<open>linkEndType_\<close>.
\<close>

datatype 't ObservationSimulationTimeSettings =
    BaseObservationSimulationTimeSettings LinkEndType
  | TabulatedObservationSimulationTimeSettings LinkEndType "'t list"

text \<open>
  \<^verbatim>\<open>ObservationModel< ObservationSize, ObservationScalarType, TimeType >\<close>: the observable
  as a function of the time and of the reference link end.
\<close>

type_synonym ('t, 'a) ObservationModel = "'t \<Rightarrow> LinkEndType \<Rightarrow> 'a list"

text \<open>
  \<^verbatim>\<open>ObservationSimulator< ObservationSize, ObservationScalarType, TimeType >\<close>, seen through
  its base class: the class is declared in observationSimulator.h, outside this header.
  \<open>ObservationSize\<close> is the template argument of the object's own class, which decides
  \<^verbatim>\<open>dynamic_pointer_cast\<close>; \<open>getObservationSize\<close> is the member function of that name;
  \<open>observationModels\<close> is the registry of the models, one for each link ends it knows.
\<close>

record ('le, 't, 'a) ObservationSimulator =
  ObservationSize :: int
  getObservationSize :: "'le \<Rightarrow> int"
  observationModels :: "'le \<Rightarrow> ('t, 'a) ObservationModel option"

text \<open>
  Modelled from the spec: \<^verbatim>\<open>ObservationSimulator::getObservationModel\<close> is declared in
  observationSimulator.h, which is not among the sources. The specification (4.2 and
  4.3, step 4): the model for the link ends is resolved from the registry of the
  simulator; \<open>NullModelError\<close> if no model is registered for the link ends.
\<close>

definition getObservationModel ::
  "('le, 't, 'a) ObservationSimulator \<Rightarrow> 'le \<Rightarrow> error + ('t, 'a) ObservationModel"
  where
  "getObservationModel simulator linkEnds =
     (case observationModels simulator linkEnds of
        None \<Rightarrow> Inl NullModelError
      | Some observationModel \<Rightarrow> Inr observationModel)"

text \<open>The pair of observable values and of the times with their reference link end.\<close>

type_synonym ('t, 'a) ObservationSet = "'a list \<times> 't list \<times> LinkEndType"

type_synonym ('ot, 'le, 't, 'a) ObservationsMap =
  "('ot \<times> ('le \<times> ('t, 'a) ObservationSet) list) list"

type_synonym ('ot, 'le, 't) TimeSettingsMap =
  "('ot \<times> ('le \<times> 't ObservationSimulationTimeSettings option) list) list"

type_synonym ('ot, 'le, 't, 'a) SimulatorMap =
  "('ot \<times> ('le, 't, 'a) ObservationSimulator option) list"

text \<open>
  \<^verbatim>\<open>boost::function< Eigen::VectorXd( const double ) >\<close>: empty, or a callable, which may
  throw (the one built by \<^verbatim>\<open>boost::bind\<close> below does). \<^verbatim>\<open>boost::function< double( const double ) >\<close>:
  empty, or a function.
\<close>

type_synonym ('t, 'a) VectorNoise = "('t \<Rightarrow> error + 'a list) option"

type_synonym ('t, 'a) ScalarNoise = "('t \<Rightarrow> 'a) option"

subsection \<open>Single observation set\<close>

text \<open>
  Modelled from the spec: \<^verbatim>\<open>simulateObservationsWithCheckAndLinkEndIdOutput\<close> is declared in
  observationSimulator.h, which is not among the sources. The specification (4.2): the
  model is evaluated at every time of the list, in list order, with the reference link
  end of the settings; the vectors are concatenated in that order; the time list and the
  reference link end are copied through unchanged. The specification has no case for a
  null model pointer, which no simulator hands over: the first evaluation, if there is
  a time, goes through the null pointer.
\<close>

definition simulateObservationsWithCheckAndLinkEndIdOutput ::
  "'t list \<Rightarrow> ('t, 'a) ObservationModel option \<Rightarrow> LinkEndType \<Rightarrow> error + ('t, 'a) ObservationSet"
  where
  "simulateObservationsWithCheckAndLinkEndIdOutput observationTimes observationModel linkEndType =
     (case observationModel of
        None \<Rightarrow>
          if observationTimes = [] then Inr ([], observationTimes, linkEndType)
          else Inl NullPointerDereference
      | Some model \<Rightarrow>
          Inr (concat (map (\<lambda>t. model t linkEndType) observationTimes),
               observationTimes, linkEndType))"

text \<open>
  \<^verbatim>\<open>simulateSingleObservationSet( observationsToSimulate, observationModel )\<close>. The return
  value is default-constructed: no values, no times, link end type 0. A null settings
  pointer fails the cast like any settings object that is not tabulated.
\<close>

definition simulateSingleObservationSet ::
  "'t ObservationSimulationTimeSettings option \<Rightarrow> ('t, 'a) ObservationModel option
    \<Rightarrow> error + ('t, 'a) ObservationSet"
  where
  "simulateSingleObservationSet observationsToSimulate observationModel =
     (case observationsToSimulate of
        Some (TabulatedObservationSimulationTimeSettings linkEndType simulationTimes) \<Rightarrow>
          simulateObservationsWithCheckAndLinkEndIdOutput simulationTimes observationModel linkEndType
      | _ \<Rightarrow> Inr ([], [], 0))"

text \<open>
  \<^verbatim>\<open>simulateSingleObservationSet( observationsToSimulate, observationSimulator, linkEnds )\<close>.
  The argument \<^verbatim>\<open>observationSimulator->getObservationModel( linkEnds )\<close> is evaluated
  before the call.
\<close>

definition simulateSingleObservationSet_simulator ::
  "'t ObservationSimulationTimeSettings option \<Rightarrow> ('le, 't, 'a) ObservationSimulator option
    \<Rightarrow> 'le \<Rightarrow> error + ('t, 'a) ObservationSet"
  where
  "simulateSingleObservationSet_simulator observationsToSimulate observationSimulator linkEnds =
     (case observationSimulator of
        None \<Rightarrow> Inl NullSimulatorError
      | Some simulator \<Rightarrow>
          (case getObservationModel simulator linkEnds of
             Inl e \<Rightarrow> Inl e
           | Inr observationModel \<Rightarrow>
               simulateSingleObservationSet observationsToSimulate (Some observationModel)))"

subsection \<open>Time settings from a table of times\<close>

text \<open>\<^verbatim>\<open>createObservationSimulationTimeSettingsMap\<close>: both loops, assigning into \<open>newMap\<close>.\<close>

definition createObservationSimulationTimeSettingsMap ::
  "('ot::linorder \<times> ('le::linorder \<times> 't list \<times> LinkEndType) list) list
    \<Rightarrow> ('ot, 'le, 't) TimeSettingsMap"
  where
  "createObservationSimulationTimeSettingsMap originalMap =
     fold (\<lambda>(observable, linkEndMap) newMap.
        fold (\<lambda>(linkEnds, simulationTimes, linkEndType) newMap.
           assign2 observable linkEnds
             (Some (TabulatedObservationSimulationTimeSettings linkEndType simulationTimes)) newMap)
          linkEndMap newMap)
       originalMap []"

subsection \<open>Observations for all observables and link ends\<close>

text \<open>
  \<^verbatim>\<open>boost::dynamic_pointer_cast< ObservationSimulator< N, ... > >\<close> of a simulator that is not
  null: null unless the object is a simulator of size \<open>N\<close>.
\<close>

definition dynamic_pointer_cast ::
  "int \<Rightarrow> ('le, 't, 'a) ObservationSimulator \<Rightarrow> ('le, 't, 'a) ObservationSimulator option"
  where
  "dynamic_pointer_cast n simulator = (if ObservationSize simulator = n then Some simulator else None)"

text \<open>The body of the inner loop of \<^verbatim>\<open>simulateObservations\<close>: the switch on the observation size.\<close>

definition simulateLinkEnds ::
  "('ot, 'le, 't, 'a) SimulatorMap \<Rightarrow> 'ot \<Rightarrow> 'le \<Rightarrow> 't ObservationSimulationTimeSettings option
    \<Rightarrow> error + ('t, 'a) ObservationSet"
  where
  "simulateLinkEnds observationSimulators observable linkEnds settings =
     (case map_of observationSimulators observable of
        None \<Rightarrow> Inl MissingSimulatorError
      | Some None \<Rightarrow> Inl NullPointerDereference
      | Some (Some simulator) \<Rightarrow>
          (let observationSize = getObservationSize simulator linkEnds in
           if observationSize = 1 then
             (case dynamic_pointer_cast 1 simulator of
                None \<Rightarrow> Inl (NullDynamicCastError 1)
              | Some derivedObservationSimulator \<Rightarrow>
                  simulateSingleObservationSet_simulator settings
                    (Some derivedObservationSimulator) linkEnds)
           else if observationSize = 2 then
             (case dynamic_pointer_cast 2 simulator of
                None \<Rightarrow> Inl (NullDynamicCastError 2)
              | Some derivedObservationSimulator \<Rightarrow>
                  simulateSingleObservationSet_simulator settings
                    (Some derivedObservationSimulator) linkEnds)
           else if observationSize = 3 then
             (case dynamic_pointer_cast 3 simulator of
                None \<Rightarrow> Inl (NullDynamicCastError 3)
              | Some derivedObservationSimulator \<Rightarrow>
                  simulateSingleObservationSet_simulator settings
                    (Some derivedObservationSimulator) linkEnds)
           else Inl (UnsupportedDimensionError observationSize)))"

text \<open>The inner loop, over the link ends of one observable.\<close>

fun simulateObservations_linkEnds ::
  "('ot::linorder, 'le::linorder, 't, 'a) SimulatorMap \<Rightarrow> 'ot
    \<Rightarrow> ('le \<times> 't ObservationSimulationTimeSettings option) list
    \<Rightarrow> ('ot, 'le, 't, 'a) ObservationsMap \<Rightarrow> error + ('ot, 'le, 't, 'a) ObservationsMap"
  where
  "simulateObservations_linkEnds observationSimulators observable [] observations =
     Inr observations"
| "simulateObservations_linkEnds observationSimulators observable ((linkEnds, settings) # rest)
     observations =
     (case simulateLinkEnds observationSimulators observable linkEnds settings of
        Inl e \<Rightarrow> Inl e
      | Inr simulated \<Rightarrow>
          simulateObservations_linkEnds observationSimulators observable rest
            (assign2 observable linkEnds simulated observations))"

text \<open>The outer loop, over the observables.\<close>

fun simulateObservations_observables ::
  "('ot::linorder, 'le::linorder, 't, 'a) SimulatorMap \<Rightarrow> ('ot, 'le, 't) TimeSettingsMap
    \<Rightarrow> ('ot, 'le, 't, 'a) ObservationsMap \<Rightarrow> error + ('ot, 'le, 't, 'a) ObservationsMap"
  where
  "simulateObservations_observables observationSimulators [] observations = Inr observations"
| "simulateObservations_observables observationSimulators ((observable, linkEndMap) # rest)
     observations =
     (case simulateObservations_linkEnds observationSimulators observable linkEndMap observations of
        Inl e \<Rightarrow> Inl e
      | Inr observations' \<Rightarrow>
          simulateObservations_observables observationSimulators rest observations')"

definition simulateObservations ::
  "('ot::linorder, 'le::linorder, 't) TimeSettingsMap \<Rightarrow> ('ot, 'le, 't, 'a) SimulatorMap
    \<Rightarrow> error + ('ot, 'le, 't, 'a) ObservationsMap"
  where
  "simulateObservations observationsToSimulate observationSimulators =
     simulateObservations_observables observationSimulators observationsToSimulate []"

text \<open>The overload that takes the table of times.\<close>

definition simulateObservations_table ::
  "('ot::linorder \<times> ('le::linorder \<times> 't list \<times> LinkEndType) list) list
    \<Rightarrow> ('ot, 'le, 't, 'a) SimulatorMap \<Rightarrow> error + ('ot, 'le, 't, 'a) ObservationsMap"
  where
  "simulateObservations_table observationsToSimulate observationSimulators =
     simulateObservations (createObservationSimulationTimeSettingsMap observationsToSimulate)
       observationSimulators"

subsection \<open>Observations with noise\<close>

text \<open>Calling a \<^verbatim>\<open>boost::function\<close>: the empty one throws.\<close>

definition callNoise :: "('t, 'a) VectorNoise \<Rightarrow> 't \<Rightarrow> error + 'a list" where
  "callNoise noiseFunction t =
     (case noiseFunction of None \<Rightarrow> Inl BadFunctionCall | Some f \<Rightarrow> f t)"

text \<open>
  \<^verbatim>\<open>v.segment( start, n ) += w\<close>. Eigen asserts that the segment lies within \<open>v\<close> and that
  \<open>w\<close> has \<open>n\<close> coefficients.
\<close>

definition segmentAdd :: "'a::plus list \<Rightarrow> int \<Rightarrow> int \<Rightarrow> 'a list \<Rightarrow> error + 'a list" where
  "segmentAdd v start n w =
     (if start < 0 \<or> n < 0 \<or> int (length v) < start + n \<or> int (length w) \<noteq> n
      then Inl EigenAssertion
      else Inr (take (nat start) v
                @ map2 (+) (take (nat n) (drop (nat start) v)) w
                @ drop (nat start + nat n) v))"

text \<open>\<^verbatim>\<open>v.segment( start, n )\<close> read: the \<open>n\<close> coefficients from index \<open>start\<close> on.\<close>

definition segment :: "'a list \<Rightarrow> nat \<Rightarrow> nat \<Rightarrow> 'a list" where
  "segment v start n = take n (drop start v)"

text \<open>
  The loop over the samples, from index \<open>i\<close> on; the second argument of the recursion is
  the list of the times not yet visited, \<^verbatim>\<open>nominalTimes.at( i )\<close> being its head. The
  noise function is called for the check of the first sample and again for the sum.
\<close>

fun addNoise ::
  "int \<Rightarrow> ('t, 'a::plus) VectorNoise \<Rightarrow> nat \<Rightarrow> 't list \<Rightarrow> 'a list \<Rightarrow> error + 'a list"
  where
  "addNoise currentObservableSize currentNoiseFunction i [] noisyObservations =
     Inr noisyObservations"
| "addNoise currentObservableSize currentNoiseFunction i (t # laterTimes) noisyObservations =
     (case (if i = 0
            then (case callNoise currentNoiseFunction t of
                    Inl e \<Rightarrow> Inl e
                  | Inr noise \<Rightarrow>
                      if int (length noise) \<noteq> currentObservableSize
                      then Inl InconsistentNoiseSizeError else Inr ())
            else Inr ()) of
        Inl e \<Rightarrow> Inl e
      | Inr _ \<Rightarrow>
          (case callNoise currentNoiseFunction t of
             Inl e \<Rightarrow> Inl e
           | Inr noise \<Rightarrow>
               (case segmentAdd noisyObservations (int i * currentObservableSize)
                       currentObservableSize noise of
                  Inl e \<Rightarrow> Inl e
                | Inr noisyObservations' \<Rightarrow>
                    addNoise currentObservableSize currentNoiseFunction (Suc i) laterTimes
                      noisyObservations')))"

text \<open>
  The body of the loop over the link ends of \<^verbatim>\<open>simulateObservationsWithNoise\<close>. The
  division is the one of C++ (\<open>sdiv\<close>, towards zero), undefined for the divisor 0.
\<close>

definition addNoiseToLinkEnds ::
  "int \<Rightarrow> ('ot \<times> ('le \<times> ('t, 'a) VectorNoise) list) list \<Rightarrow> 'ot \<Rightarrow> 'le
    \<Rightarrow> ('t, 'a::plus) ObservationSet \<Rightarrow> error + ('t, 'a) ObservationSet"
  where
  "addNoiseToLinkEnds currentObservableSize noiseFunctions observable linkEnds
       nominalObservationsAndTimes =
     (let noisyObservations = fst nominalObservationsAndTimes;
          nominalTimes = fst (snd nominalObservationsAndTimes)
      in if currentObservableSize = 0 then Inl DivisionByZero
         else if int (length nominalTimes)
                   \<noteq> int (length noisyObservations) sdiv currentObservableSize
         then Inl InconsistentSampleCountError
         else (case map_of noiseFunctions observable of
                 None \<Rightarrow> Inl MissingNoiseFunctionError
               | Some linkEndNoise \<Rightarrow>
                   (case map_of linkEndNoise linkEnds of
                      None \<Rightarrow> Inl MissingNoiseFunctionError
                    | Some currentNoiseFunction \<Rightarrow>
                        (case addNoise currentObservableSize currentNoiseFunction 0
                                nominalTimes noisyObservations of
                           Inl e \<Rightarrow> Inl e
                         | Inr noisy \<Rightarrow> Inr (noisy, snd nominalObservationsAndTimes)))))"

text \<open>The loop over the link ends of one observable, filling \<open>singleObservableObservationsWithNoise\<close>.\<close>

fun simulateObservationsWithNoise_linkEnds ::
  "int \<Rightarrow> ('ot \<times> ('le::linorder \<times> ('t, 'a) VectorNoise) list) list \<Rightarrow> 'ot
    \<Rightarrow> ('le \<times> ('t, 'a::plus) ObservationSet) list \<Rightarrow> ('le \<times> ('t, 'a) ObservationSet) list
    \<Rightarrow> error + ('le \<times> ('t, 'a) ObservationSet) list"
  where
  "simulateObservationsWithNoise_linkEnds currentObservableSize noiseFunctions observable []
     singleObservableObservationsWithNoise = Inr singleObservableObservationsWithNoise"
| "simulateObservationsWithNoise_linkEnds currentObservableSize noiseFunctions observable
     ((linkEnds, nominalObservationsAndTimes) # rest) singleObservableObservationsWithNoise =
     (case addNoiseToLinkEnds currentObservableSize noiseFunctions observable linkEnds
             nominalObservationsAndTimes of
        Inl e \<Rightarrow> Inl e
      | Inr noisy \<Rightarrow>
          simulateObservationsWithNoise_linkEnds currentObservableSize noiseFunctions observable
            rest (assign linkEnds noisy singleObservableObservationsWithNoise))"

text \<open>
  The loop over the observables of the noise-free observations. \<open>getObservableSize\<close> is
  declared outside this header: the table of the observable sizes is a parameter.
\<close>

fun simulateObservationsWithNoise_observables ::
  "('ot::linorder \<Rightarrow> int) \<Rightarrow> ('ot \<times> ('le::linorder \<times> ('t, 'a) VectorNoise) list) list
    \<Rightarrow> ('ot, 'le, 't, 'a::plus) ObservationsMap \<Rightarrow> ('ot, 'le, 't, 'a) ObservationsMap
    \<Rightarrow> error + ('ot, 'le, 't, 'a) ObservationsMap"
  where
  "simulateObservationsWithNoise_observables getObservableSize noiseFunctions []
     noisyObservationsList = Inr noisyObservationsList"
| "simulateObservationsWithNoise_observables getObservableSize noiseFunctions
     ((observable, linkEndObservations) # rest) noisyObservationsList =
     (case simulateObservationsWithNoise_linkEnds (getObservableSize observable) noiseFunctions
             observable linkEndObservations [] of
        Inl e \<Rightarrow> Inl e
      | Inr singleObservableObservationsWithNoise \<Rightarrow>
          simulateObservationsWithNoise_observables getObservableSize noiseFunctions rest
            (assign observable singleObservableObservationsWithNoise noisyObservationsList))"

text \<open>The overload with one vector noise function for each observable and link ends.\<close>

definition simulateObservationsWithNoise ::
  "('ot::linorder \<Rightarrow> int) \<Rightarrow> ('ot, 'le::linorder, 't) TimeSettingsMap
    \<Rightarrow> ('ot, 'le, 't, 'a::plus) SimulatorMap
    \<Rightarrow> ('ot \<times> ('le \<times> ('t, 'a) VectorNoise) list) list
    \<Rightarrow> error + ('ot, 'le, 't, 'a) ObservationsMap"
  where
  "simulateObservationsWithNoise getObservableSize observationsToSimulate observationSimulators
       noiseFunctions =
     (case simulateObservations observationsToSimulate observationSimulators of
        Inl e \<Rightarrow> Inl e
      | Inr noiseFreeObservationsList \<Rightarrow>
          simulateObservationsWithNoise_observables getObservableSize noiseFunctions
            noiseFreeObservationsList [])"

text \<open>
  \<^verbatim>\<open>getIdenticallyAndIndependentlyDistributedNoise\<close>: the scalar noise function is called
  once for each entry, so not at all for the size 0.
\<close>

definition getIdenticallyAndIndependentlyDistributedNoise ::
  "('t, 'a) ScalarNoise \<Rightarrow> int \<Rightarrow> 't \<Rightarrow> error + 'a list"
  where
  "getIdenticallyAndIndependentlyDistributedNoise noiseFunction observationSize evaluationTime =
     (if observationSize < 0 then Inl EigenAssertion
      else if observationSize = 0 then Inr []
      else (case noiseFunction of
              None \<Rightarrow> Inl BadFunctionCall
            | Some f \<Rightarrow> Inr (replicate (nat observationSize) (f evaluationTime))))"

text \<open>The overload with one scalar noise function for each observable and link ends.\<close>

definition simulateObservationsWithNoise_linkEndsScalar ::
  "('ot::linorder \<Rightarrow> int) \<Rightarrow> ('ot, 'le::linorder, 't) TimeSettingsMap
    \<Rightarrow> ('ot, 'le, 't, 'a::plus) SimulatorMap
    \<Rightarrow> ('ot \<times> ('le \<times> ('t, 'a) ScalarNoise) list) list
    \<Rightarrow> error + ('ot, 'le, 't, 'a) ObservationsMap"
  where
  "simulateObservationsWithNoise_linkEndsScalar getObservableSize observationsToSimulate
       observationSimulators noiseFunctions =
     (let noiseVectorFunctions =
        fold (\<lambda>(observable, linkEndNoise) noiseVectorFunctions.
           fold (\<lambda>(linkEnds, noiseFunction) noiseVectorFunctions.
              assign2 observable linkEnds
                (Some (getIdenticallyAndIndependentlyDistributedNoise noiseFunction
                         (getObservableSize observable)))
                noiseVectorFunctions)
             linkEndNoise noiseVectorFunctions)
          noiseFunctions []
      in simulateObservationsWithNoise getObservableSize observationsToSimulate
           observationSimulators noiseVectorFunctions)"

text \<open>
  The overload with one vector noise function for each observable: the loop over the
  observables to simulate that fills \<open>fullNoiseFunctions\<close>, then the overload above.
\<close>

fun fullNoiseFunctions_observables ::
  "('ot::linorder \<times> ('t, 'a) VectorNoise) list \<Rightarrow> ('ot, 'le::linorder, 't) TimeSettingsMap
    \<Rightarrow> ('ot \<times> ('le \<times> ('t, 'a) VectorNoise) list) list
    \<Rightarrow> error + ('ot \<times> ('le \<times> ('t, 'a) VectorNoise) list) list"
  where
  "fullNoiseFunctions_observables noiseFunctions [] fullNoiseFunctions = Inr fullNoiseFunctions"
| "fullNoiseFunctions_observables noiseFunctions ((observable, linkEndMap) # rest)
     fullNoiseFunctions =
     (case map_of noiseFunctions observable of
        None \<Rightarrow> Inl MissingObservableNoiseError
      | Some None \<Rightarrow> Inl EmptyNoiseFunctionError
      | Some (Some f) \<Rightarrow>
          fullNoiseFunctions_observables noiseFunctions rest
            (fold (\<lambda>(linkEnds, settings) fullNoiseFunctions.
                     assign2 observable linkEnds (Some f) fullNoiseFunctions)
               linkEndMap fullNoiseFunctions))"

definition simulateObservationsWithNoise_observableVector ::
  "('ot::linorder \<Rightarrow> int) \<Rightarrow> ('ot, 'le::linorder, 't) TimeSettingsMap
    \<Rightarrow> ('ot, 'le, 't, 'a::plus) SimulatorMap \<Rightarrow> ('ot \<times> ('t, 'a) VectorNoise) list
    \<Rightarrow> error + ('ot, 'le, 't, 'a) ObservationsMap"
  where
  "simulateObservationsWithNoise_observableVector getObservableSize observationsToSimulate
       observationSimulators noiseFunctions =
     (case fullNoiseFunctions_observables noiseFunctions observationsToSimulate [] of
        Inl e \<Rightarrow> Inl e
      | Inr fullNoiseFunctions \<Rightarrow>
          simulateObservationsWithNoise getObservableSize observationsToSimulate
            observationSimulators fullNoiseFunctions)"

text \<open>The overload with one scalar noise function for each observable.\<close>

definition simulateObservationsWithNoise_observableScalar ::
  "('ot::linorder \<Rightarrow> int) \<Rightarrow> ('ot, 'le::linorder, 't) TimeSettingsMap
    \<Rightarrow> ('ot, 'le, 't, 'a::plus) SimulatorMap \<Rightarrow> ('ot \<times> ('t, 'a) ScalarNoise) list
    \<Rightarrow> error + ('ot, 'le, 't, 'a) ObservationsMap"
  where
  "simulateObservationsWithNoise_observableScalar getObservableSize observationsToSimulate
       observationSimulators noiseFunctions =
     (let noiseVectorFunctions =
        fold (\<lambda>(observable, noiseFunction) noiseVectorFunctions.
           assign observable
             (Some (getIdenticallyAndIndependentlyDistributedNoise noiseFunction
                      (getObservableSize observable)))
             noiseVectorFunctions)
          noiseFunctions []
      in simulateObservationsWithNoise_observableVector getObservableSize observationsToSimulate
           observationSimulators noiseVectorFunctions)"

text \<open>The overload with a single scalar noise function.\<close>

definition simulateObservationsWithNoise_single ::
  "('ot::linorder \<Rightarrow> int) \<Rightarrow> ('ot, 'le::linorder, 't) TimeSettingsMap
    \<Rightarrow> ('ot, 'le, 't, 'a::plus) SimulatorMap \<Rightarrow> ('t, 'a) ScalarNoise
    \<Rightarrow> error + ('ot, 'le, 't, 'a) ObservationsMap"
  where
  "simulateObservationsWithNoise_single getObservableSize observationsToSimulate
       observationSimulators noiseFunction =
     (let noiseFunctionList =
        fold (\<lambda>(observable, linkEndMap) noiseFunctionList.
           assign observable noiseFunction noiseFunctionList)
          observationsToSimulate []
      in simulateObservationsWithNoise_observableScalar getObservableSize observationsToSimulate
           observationSimulators noiseFunctionList)"

subsection \<open>Noise that is zero\<close>

text \<open>
  The noise functions that are constant zero: the scalar one, and the vector one of a
  given size.
\<close>

definition zeroScalarNoise :: "('t, 'a::zero) ScalarNoise" where
  "zeroScalarNoise = Some (\<lambda>t. 0)"

definition zeroVectorNoise :: "int \<Rightarrow> ('t, 'a::zero) VectorNoise" where
  "zeroVectorNoise observationSize = Some (\<lambda>t. Inr (replicate (nat observationSize) 0))"

subsection \<open>The scalar type double\<close>

text \<open>
  The noise functions return \<^verbatim>\<open>Eigen::VectorXd\<close>, vectors of \<^verbatim>\<open>double\<close>, and \<^verbatim>\<open>double\<close> is
  the default of \<^verbatim>\<open>ObservationScalarType\<close> and \<^verbatim>\<open>TimeType\<close>: IEEE 754 binary64. A finite
  value is a sign, a mantissa \<open>m < 2 ^ 53\<close> and an exponent \<open>e\<close> from \<open>- 1074\<close> to \<open>971\<close>,
  standing for \<open>m * 2 ^ e\<close> and written with the smallest exponent (\<open>2 ^ 52 \<le> m\<close>, or
  \<open>e = - 1074\<close>), so that two values are equal when they are the same bits; zero has a
  sign. The payloads of the NaNs are not told apart.
\<close>

datatype double = Finite bool nat int | Infinity bool | NaN

fun bitLength :: "nat \<Rightarrow> nat" where
  "bitLength n = (if n = 0 then 0 else 1 + bitLength (n div 2))"

declare bitLength.simps [simp del]

text \<open>A finite value, or the infinity when the exponent is beyond the largest one.\<close>

definition overflowing :: "bool \<Rightarrow> nat \<Rightarrow> int \<Rightarrow> double" where
  "overflowing negative m e = (if 971 < e then Infinity negative else Finite negative m e)"

text \<open>
  The value \<open>a * 2 ^ e\<close>, \<open>a\<close> positive, rounded to the nearest double, a tie to the
  even mantissa (the rounding mode in which programs run unless they change it).
\<close>

definition roundToDouble :: "bool \<Rightarrow> nat \<Rightarrow> int \<Rightarrow> double" where
  "roundToDouble negative a e =
     (let e' = max (e + int (bitLength a) - 53) (- 1074) in
      if e' \<le> e then overflowing negative (a * 2 ^ nat (e - e')) e'
      else
        (let k = nat (e' - e);
             q = a div 2 ^ k;
             r = a mod 2 ^ k;
             q' = (if 2 ^ (k - 1) < r \<or> (r = 2 ^ (k - 1) \<and> odd q) then q + 1 else q)
         in if q' = 2 ^ 53 then overflowing negative (2 ^ 52) (e' + 1)
            else overflowing negative q' e'))"

text \<open>
  The sum: the exact sum, rounded. A zero added to a value leaves the value; a sum that
  is exactly zero is the positive zero, unless both summands are the negative zero.
\<close>

fun double_add :: "double \<Rightarrow> double \<Rightarrow> double" where
  "double_add NaN y = NaN"
| "double_add x NaN = NaN"
| "double_add (Infinity s) (Infinity s') = (if s = s' then Infinity s else NaN)"
| "double_add (Infinity s) (Finite s' m' e') = Infinity s"
| "double_add (Finite s m e) (Infinity s') = Infinity s'"
| "double_add (Finite s m e) (Finite s' m' e') =
     (if m = 0 \<and> m' = 0 then Finite (s \<and> s') 0 (- 1074)
      else if m' = 0 then Finite s m e
      else if m = 0 then Finite s' m' e'
      else
        (let e0 = min e e';
             x = (if s then - 1 else 1) * int m * 2 ^ nat (e - e0)
                 + (if s' then - 1 else 1) * int m' * 2 ^ nat (e' - e0)
         in if x = 0 then Finite False 0 (- 1074)
            else roundToDouble (x < 0) (nat \<bar>x\<bar>) e0))"

fun double_neg :: "double \<Rightarrow> double" where
  "double_neg NaN = NaN"
| "double_neg (Infinity s) = Infinity (\<not> s)"
| "double_neg (Finite s m e) = Finite (\<not> s) m e"

instantiation double :: "{zero, plus, uminus, minus}"
begin

definition zero_double_def: "0 = Finite False 0 (- 1074)"

definition plus_double_def: "x + y = double_add x y"

definition uminus_double_def: "- x = double_neg x"

definition minus_double_def: "x - y = double_add x (double_neg y)"

instance ..

end

subsection \<open>Example inputs\<close>

text \<open>
  A simulator of size 1 with a model for the link ends 0 only (twice the time), a
  simulator of size 3 with a model for all link ends, and a simulator that reports the
  size 4.
\<close>

definition exampleSimulator1 :: "(nat, int, int) ObservationSimulator" where
  "exampleSimulator1 =
     \<lparr> ObservationSize = 1, getObservationSize = (\<lambda>linkEnds. 1),
       observationModels =
         (\<lambda>linkEnds. if linkEnds = 0 then Some (\<lambda>t linkEndType. [2 * t]) else None) \<rparr>"

definition exampleSimulator3 :: "(nat, int, int) ObservationSimulator" where
  "exampleSimulator3 =
     \<lparr> ObservationSize = 3, getObservationSize = (\<lambda>linkEnds. 3),
       observationModels = (\<lambda>linkEnds. Some (\<lambda>t linkEndType. [t, t + 1, t + 2])) \<rparr>"

definition exampleSimulator4 :: "(nat, int, int) ObservationSimulator" where
  "exampleSimulator4 =
     \<lparr> ObservationSize = 4, getObservationSize = (\<lambda>linkEnds. 4),
       observationModels = (\<lambda>linkEnds. Some (\<lambda>t linkEndType. [t, t, t, t])) \<rparr>"

text \<open>One observable, 5, with the link ends 0, simulated at the times 0, 1 and 2.\<close>

definition exampleTimes :: "(nat, nat, int) TimeSettingsMap" where
  "exampleTimes = [(5, [(0, Some (TabulatedObservationSimulationTimeSettings 7 [0, 1, 2]))])]"

text \<open>The same observable and link ends, simulated at the single time 10.\<close>

definition exampleSingleTime :: "(nat, nat, int) TimeSettingsMap" where
  "exampleSingleTime = [(5, [(0, Some (TabulatedObservationSimulationTimeSettings 7 [10]))])]"

text \<open>Tables of observable sizes: all of size 1, all of size 2.\<close>

definition exampleSizes1 :: "nat \<Rightarrow> int" where
  "exampleSizes1 observable = 1"

definition exampleSizes2 :: "nat \<Rightarrow> int" where
  "exampleSizes2 observable = 2"

text \<open>Constant noise functions, of size 1 and of size 2.\<close>

definition exampleNoise1 :: "(int, int) VectorNoise" where
  "exampleNoise1 = Some (\<lambda>t. Inr [10])"

definition exampleNoise2 :: "(int, int) VectorNoise" where
  "exampleNoise2 = Some (\<lambda>t. Inr [100, 100])"

text \<open>A table of times: the observable 5 as above, and the observable 6 with no link ends.\<close>

definition exampleTable :: "(nat \<times> (nat \<times> int list \<times> LinkEndType) list) list" where
  "exampleTable = [(5, [(0, [0, 1, 2], 7)]), (6, [])]"

text \<open>A scalar noise function.\<close>

definition exampleScalarNoise :: "(int, int) ScalarNoise" where
  "exampleScalarNoise = Some (\<lambda>t. 1)"

text \<open>The doubles 0.1, 1.0, 2.0, 4.0, and the sums 2.0 + 0.1 and 4.0 + 0.1.\<close>

definition double01 :: double where
  "double01 = Finite False 7205759403792794 (- 56)"

definition double1 :: double where
  "double1 = Finite False 4503599627370496 (- 52)"

definition double2 :: double where
  "double2 = Finite False 4503599627370496 (- 51)"

definition double4 :: double where
  "double4 = Finite False 4503599627370496 (- 50)"

definition double21 :: double where
  "double21 = Finite False 4728779608739021 (- 51)"

definition double41 :: double where
  "double41 = Finite False 4616189618054758 (- 50)"

text \<open>
  One observable of size 1 and one link ends, simulated at the times 0.0, 1.0 and 2.0 by
  a model that returns twice the time, with the constant noise 0.1.
\<close>

definition exampleDoubleSimulator :: "(nat, double, double) ObservationSimulator" where
  "exampleDoubleSimulator =
     \<lparr> ObservationSize = 1, getObservationSize = (\<lambda>linkEnds. 1),
       observationModels = (\<lambda>linkEnds. Some (\<lambda>t linkEndType. [t + t])) \<rparr>"

definition exampleDoubleTimes :: "(nat, nat, double) TimeSettingsMap" where
  "exampleDoubleTimes =
     [(5, [(0, Some (TabulatedObservationSimulationTimeSettings 7 [0, double1, double2]))])]"

definition exampleDoubleNoise :: "(double, double) VectorNoise" where
  "exampleDoubleNoise = Some (\<lambda>t. Inr [double01])"

text \<open>A model that returns the negative zero.\<close>

definition exampleNegativeZeroSimulator :: "(nat, double, double) ObservationSimulator" where
  "exampleNegativeZeroSimulator =
     \<lparr> ObservationSize = 1, getObservationSize = (\<lambda>linkEnds. 1),
       observationModels = (\<lambda>linkEnds. Some (\<lambda>t linkEndType. [Finite True 0 (- 1074)])) \<rparr>"

section \<open>Properties\<close>

lemmas example_defs =
  exampleSimulator1_def exampleSimulator3_def exampleSimulator4_def exampleTimes_def
  exampleSingleTime_def exampleSizes1_def exampleSizes2_def exampleNoise1_def exampleNoise2_def

lemmas simulate_defs =
  simulateObservations_def simulateLinkEnds_def dynamic_pointer_cast_def
  simulateSingleObservationSet_simulator_def getObservationModel_def
  simulateSingleObservationSet_def simulateObservationsWithCheckAndLinkEndIdOutput_def
  assign2_def

lemmas noise_defs =
  simulateObservationsWithNoise_def addNoiseToLinkEnds_def callNoise_def segmentAdd_def
  signed_divide_int_def

subsection \<open>Sums of doubles\<close>

lemma bitLength_0: "bitLength 0 = 0"
  by (simp add: bitLength.simps)

lemma bitLength_1: "bitLength (Suc 0) = 1"
  by (simp add: bitLength.simps)

lemma bitLength_numeral: "bitLength (numeral k) = 1 + bitLength (numeral k div 2)"
  by (subst bitLength.simps) simp

lemmas double_defs =
  plus_double_def minus_double_def zero_double_def roundToDouble_def overflowing_def Let_def
  bitLength_0 bitLength_1 bitLength_numeral
  double01_def double1_def double2_def double4_def double21_def double41_def

lemma double_sums:
  "double1 + double1 = double2" "double2 + double2 = double4" "(0::double) + 0 = 0"
  "0 + double01 = double01" "double2 + double01 = double21" "double4 + double01 = double41"
  by (simp_all add: double_defs)

lemma double_difference: "double21 - double2 = Finite False 7205759403792800 (- 56)"
  by (simp add: double_defs)

lemma double_plus_zero:
  "(0::double) + 0 = 0" "double2 + 0 = double2" "double4 + 0 = double4"
  by (simp_all add: double_defs)

lemma negative_zero_plus_zero: "Finite True 0 (- 1074) + (0::double) = Finite False 0 (- 1074)"
  by (simp add: double_defs)

subsection \<open>Single observation set\<close>

text \<open>
  C6. For settings that are not tabulated (an object of another class, or a null
  pointer), \<open>simulateSingleObservationSet\<close> returns the empty result, with no values and
  no times, and does not fail, whatever the model; so does the overload that takes a
  simulator, once the simulator has resolved a model for the link ends.
\<close>

theorem simulateSingleObservationSet_not_tabulated:
  "simulateSingleObservationSet (Some (BaseObservationSimulationTimeSettings linkEndType))
       observationModel = Inr ([], [], 0)
   \<and> simulateSingleObservationSet None observationModel = Inr ([], [], 0)
   \<and> (observationModels simulator linkEnds \<noteq> None \<longrightarrow>
        simulateSingleObservationSet_simulator
          (Some (BaseObservationSimulationTimeSettings linkEndType)) (Some simulator) linkEnds
        = Inr ([], [], 0))"
  by (auto simp add: simulateSingleObservationSet_def simulateSingleObservationSet_simulator_def
      getObservationModel_def)

theorem simulateSingleObservationSet_not_tabulated_witness:
  "simulateSingleObservationSet (Some (BaseObservationSimulationTimeSettings 4))
       (observationModels exampleSimulator1 0) = Inr ([], [], 0)
   \<and> simulateSingleObservationSet None (observationModels exampleSimulator1 0)
       = Inr ([], [], 0)
   \<and> observationModels exampleSimulator1 0 \<noteq> None
   \<and> simulateSingleObservationSet_simulator (Some (BaseObservationSimulationTimeSettings 4))
         (Some exampleSimulator1) 0 = Inr ([], [], 0)"
proof -
  have h: "observationModels exampleSimulator1 0 \<noteq> None"
    by (simp add: exampleSimulator1_def)
  from simulateSingleObservationSet_not_tabulated [of 4 "observationModels exampleSimulator1 0"
      exampleSimulator1 0] h
  show ?thesis
    by simp
qed

text \<open>
  C3. The overload that takes a simulator and link ends fails with \<open>NullModelError\<close>
  whenever the simulator has no model for the link ends, whatever the settings: the
  model is resolved before the settings are looked at, so no model is evaluated and
  the empty result of settings that are not tabulated is never reached.
\<close>

theorem simulator_overload_without_model:
  assumes "observationModels simulator linkEnds = None"
  shows "simulateSingleObservationSet_simulator observationsToSimulate (Some simulator) linkEnds
         = Inl NullModelError"
  using assms
  by (simp add: simulateSingleObservationSet_simulator_def getObservationModel_def)

theorem simulator_overload_without_model_witness:
  "observationModels exampleSimulator1 1 = None
   \<and> simulateSingleObservationSet_simulator (Some (BaseObservationSimulationTimeSettings 4))
         (Some exampleSimulator1) 1 = Inl NullModelError
   \<and> simulateSingleObservationSet_simulator
         (Some (TabulatedObservationSimulationTimeSettings 4 [0, 1, 2])) (Some exampleSimulator1) 1
       = Inl NullModelError"
proof -
  have h: "observationModels exampleSimulator1 1 = None"
    by (simp add: exampleSimulator1_def)
  from simulator_overload_without_model [OF h,
        of "Some (BaseObservationSimulationTimeSettings 4)"]
    simulator_overload_without_model [OF h,
        of "Some (TabulatedObservationSimulationTimeSettings 4 [0, 1, 2])"] h
  show ?thesis
    by simp
qed

subsection \<open>The switch on the observation size\<close>

lemma simulateLinkEnds_switch:
  assumes "map_of observationSimulators observable = Some (Some simulator)"
  shows "simulateLinkEnds observationSimulators observable linkEnds settings =
     (if getObservationSize simulator linkEnds \<in> {1, 2, 3}
      then (case dynamic_pointer_cast (getObservationSize simulator linkEnds) simulator of
              None \<Rightarrow> Inl (NullDynamicCastError (getObservationSize simulator linkEnds))
            | Some derivedObservationSimulator \<Rightarrow>
                simulateSingleObservationSet_simulator settings
                  (Some derivedObservationSimulator) linkEnds)
      else Inl (UnsupportedDimensionError (getObservationSize simulator linkEnds)))"
  using assms by (auto simp add: simulateLinkEnds_def Let_def split: option.splits)

text \<open>A failure for one observable and link ends aborts both loops.\<close>

lemma simulateObservations_linkEnds_aborts:
  "(linkEnds, settings) \<in> set linkEndMap
   \<Longrightarrow> simulateLinkEnds observationSimulators observable linkEnds settings = Inl e
   \<Longrightarrow> \<exists>e'. simulateObservations_linkEnds observationSimulators observable linkEndMap
          observations = Inl e'"
proof (induction linkEndMap arbitrary: observations)
  case Nil
  then show ?case by simp
next
  case (Cons entry linkEndMap)
  obtain l s where entry: "entry = (l, s)" by (cases entry)
  show ?case
  proof (cases "simulateLinkEnds observationSimulators observable l s")
    case (Inl e1)
    then show ?thesis by (simp add: entry)
  next
    case (Inr r)
    with Cons.prems entry have "(linkEnds, settings) \<in> set linkEndMap" by auto
    from Cons.IH [OF this Cons.prems(2)] show ?thesis by (simp add: entry Inr)
  qed
qed

lemma simulateObservations_observables_aborts:
  "(observable, linkEndMap) \<in> set observationsToSimulate
   \<Longrightarrow> (linkEnds, settings) \<in> set linkEndMap
   \<Longrightarrow> simulateLinkEnds observationSimulators observable linkEnds settings = Inl e
   \<Longrightarrow> \<exists>e'. simulateObservations_observables observationSimulators observationsToSimulate
          observations = Inl e'"
proof (induction observationsToSimulate arbitrary: observations)
  case Nil
  then show ?case by simp
next
  case (Cons entry observationsToSimulate)
  obtain k m where entry: "entry = (k, m)" by (cases entry)
  show ?case
  proof (cases "simulateObservations_linkEnds observationSimulators k m observations")
    case (Inl e1)
    then show ?thesis by (simp add: entry)
  next
    case (Inr observations')
    have "(observable, linkEndMap) \<in> set observationsToSimulate"
    proof (rule ccontr)
      assume "(observable, linkEndMap) \<notin> set observationsToSimulate"
      with Cons.prems(1) entry have "k = observable" "m = linkEndMap" by auto
      with simulateObservations_linkEnds_aborts [OF Cons.prems(2,3), of observations] Inr
      show False by simp
    qed
    from Cons.IH [OF this Cons.prems(2,3)] show ?thesis by (simp add: entry Inr)
  qed
qed

text \<open>The loops over a list of entries cut in two; the first failure is the result.\<close>

lemma simulateObservations_linkEnds_append:
  "simulateObservations_linkEnds sims ot (xs @ ys) acc =
     (case simulateObservations_linkEnds sims ot xs acc of
        Inl e \<Rightarrow> Inl e
      | Inr acc' \<Rightarrow> simulateObservations_linkEnds sims ot ys acc')"
  by (induction xs arbitrary: acc) (auto split: sum.splits)

lemma simulateObservations_observables_append:
  "simulateObservations_observables sims (xs @ ys) acc =
     (case simulateObservations_observables sims xs acc of
        Inl e \<Rightarrow> Inl e
      | Inr acc' \<Rightarrow> simulateObservations_observables sims ys acc')"
  by (induction xs arbitrary: acc) (auto split: sum.splits)

lemma simulateObservations_first_failure:
  assumes "simulateObservations_observables sims earlier [] = Inr observations1"
    and "simulateObservations_linkEnds sims ot earlierLinkEnds observations1 = Inr observations2"
    and "simulateLinkEnds sims ot le settings = Inl e"
  shows "simulateObservations
           (earlier @ (ot, earlierLinkEnds @ (le, settings) # laterLinkEnds) # later) sims
         = Inl e"
  using assms
  by (simp add: simulateObservations_def simulateObservations_observables_append
      simulateObservations_linkEnds_append)

text \<open>
  C5. For an observable and link ends of the time settings whose simulator reports the
  size 1, 2 or 3, the pair is handed to the simulator cast to that size (a failed cast
  is an error); for any other reported size the pair fails with
  \<open>UnsupportedDimensionError\<close>, and with it the whole call of \<open>simulateObservations\<close>
  fails: there is no path for other sizes. The call fails with this very error when the
  pairs before it, in the order of the loops, have succeeded.
\<close>

theorem simulateObservations_dispatch:
  assumes "map_of observationSimulators observable = Some (Some simulator)"
  shows "simulateLinkEnds observationSimulators observable linkEnds settings =
     (if getObservationSize simulator linkEnds \<in> {1, 2, 3}
      then (case dynamic_pointer_cast (getObservationSize simulator linkEnds) simulator of
              None \<Rightarrow> Inl (NullDynamicCastError (getObservationSize simulator linkEnds))
            | Some derivedObservationSimulator \<Rightarrow>
                simulateSingleObservationSet_simulator settings
                  (Some derivedObservationSimulator) linkEnds)
      else Inl (UnsupportedDimensionError (getObservationSize simulator linkEnds)))
    \<and> ((observable, linkEndMap) \<in> set observationsToSimulate
         \<and> (linkEnds, settings) \<in> set linkEndMap
         \<and> getObservationSize simulator linkEnds \<notin> {1, 2, 3}
       \<longrightarrow> (\<exists>e. simulateObservations observationsToSimulate observationSimulators = Inl e))
    \<and> (simulateObservations_observables observationSimulators earlier [] = Inr observations1
         \<and> simulateObservations_linkEnds observationSimulators observable earlierLinkEnds
               observations1 = Inr observations2
         \<and> getObservationSize simulator linkEnds \<notin> {1, 2, 3}
       \<longrightarrow> simulateObservations
             (earlier @ (observable, earlierLinkEnds @ (linkEnds, settings) # laterLinkEnds)
                # later)
             observationSimulators
           = Inl (UnsupportedDimensionError (getObservationSize simulator linkEnds)))"
proof (intro conjI impI)
  show "simulateLinkEnds observationSimulators observable linkEnds settings =
     (if getObservationSize simulator linkEnds \<in> {1, 2, 3}
      then (case dynamic_pointer_cast (getObservationSize simulator linkEnds) simulator of
              None \<Rightarrow> Inl (NullDynamicCastError (getObservationSize simulator linkEnds))
            | Some derivedObservationSimulator \<Rightarrow>
                simulateSingleObservationSet_simulator settings
                  (Some derivedObservationSimulator) linkEnds)
      else Inl (UnsupportedDimensionError (getObservationSize simulator linkEnds)))"
    by (rule simulateLinkEnds_switch [OF assms])
next
  assume a: "(observable, linkEndMap) \<in> set observationsToSimulate
         \<and> (linkEnds, settings) \<in> set linkEndMap
         \<and> getObservationSize simulator linkEnds \<notin> {1, 2, 3}"
  then have "simulateLinkEnds observationSimulators observable linkEnds settings
      = Inl (UnsupportedDimensionError (getObservationSize simulator linkEnds))"
    by (simp add: simulateLinkEnds_switch [OF assms])
  with a show "\<exists>e. simulateObservations observationsToSimulate observationSimulators = Inl e"
    unfolding simulateObservations_def
    by (blast intro: simulateObservations_observables_aborts)
next
  assume a: "simulateObservations_observables observationSimulators earlier [] = Inr observations1
         \<and> simulateObservations_linkEnds observationSimulators observable earlierLinkEnds
               observations1 = Inr observations2
         \<and> getObservationSize simulator linkEnds \<notin> {1, 2, 3}"
  then have "simulateLinkEnds observationSimulators observable linkEnds settings
      = Inl (UnsupportedDimensionError (getObservationSize simulator linkEnds))"
    by (simp add: simulateLinkEnds_switch [OF assms])
  with a show "simulateObservations
             (earlier @ (observable, earlierLinkEnds @ (linkEnds, settings) # laterLinkEnds)
                # later)
             observationSimulators
           = Inl (UnsupportedDimensionError (getObservationSize simulator linkEnds))"
    by (blast intro: simulateObservations_first_failure)
qed

theorem simulateObservations_dispatch_witness:
  "map_of [(5::nat, Some exampleSimulator4)] 5 = Some (Some exampleSimulator4)
   \<and> getObservationSize exampleSimulator4 0 \<notin> {1, 2, 3}
   \<and> simulateLinkEnds [(5::nat, Some exampleSimulator4)] 5 0
         (Some (TabulatedObservationSimulationTimeSettings 7 [0, 1, 2]))
       = Inl (UnsupportedDimensionError 4)
   \<and> (\<exists>e. simulateObservations exampleTimes [(5, Some exampleSimulator4)] = Inl e)
   \<and> simulateObservations exampleTimes [(5, Some exampleSimulator4)]
       = Inl (UnsupportedDimensionError 4)"
proof -
  have h: "map_of [(5::nat, Some exampleSimulator4)] 5 = Some (Some exampleSimulator4)"
    by simp
  have s: "getObservationSize exampleSimulator4 0 = 4"
    by (simp add: exampleSimulator4_def)
  have e: "simulateObservations_observables [(5::nat, Some exampleSimulator4)] [] [] = Inr []"
    "simulateObservations_linkEnds [(5::nat, Some exampleSimulator4)] 5 [] [] = Inr []"
    by simp_all
  from simulateObservations_dispatch [OF h, of 0
        "Some (TabulatedObservationSimulationTimeSettings 7 [0, 1, 2])"
        "[(0, Some (TabulatedObservationSimulationTimeSettings 7 [0, 1, 2]))]" exampleTimes
        "[]" "[]" "[]" "[]" "[]" "[]"] h s e
  show ?thesis
    by (simp add: exampleTimes_def)
qed

subsection \<open>std::map\<close>

lemma map_of_assign: "map_of (assign k v m) = (map_of m)(k \<mapsto> v)"
  by (induction m) (auto simp: fun_eq_iff)

lemma set_assign_subset: "set (assign k v m) \<subseteq> insert (k, v) (set m)"
  by (induction m) (auto split: if_splits)

lemma keys_assign: "fst ` set (assign k v m) = insert k (fst ` set m)"
  by (induction m) (force split: if_splits)+

lemma is_map_assign: "is_map m \<Longrightarrow> is_map (assign k v m)"
  unfolding is_map_def
proof (induction m)
  case Nil
  then show ?case by simp
next
  case (Cons e m)
  obtain k' v' where e: "e = (k', v')" by (cases e)
  from Cons.prems have tl: "sorted_wrt (<) (map fst m)" and hd: "\<forall>x \<in> set m. k' < fst x"
    by (auto simp: e)
  have "\<forall>x \<in> set (assign k v m). fst x \<in> insert k (fst ` set m)"
    using keys_assign [of k v m] by auto
  with hd have "\<not> k < k' \<Longrightarrow> k \<noteq> k' \<Longrightarrow> \<forall>x \<in> set (assign k v m). k' < fst x"
    by (metis insertE imageE not_less_iff_gr_or_eq)
  with Cons.IH [OF tl] Cons.prems show ?case
    by (auto simp: e)
qed

lemma assign_append: "\<forall>x \<in> set m. fst x < k \<Longrightarrow> assign k v m = m @ [(k, v)]"
  by (induction m) auto

lemma is_map_map_of: "is_map m \<Longrightarrow> (map_of m k = Some v) = ((k, v) \<in> set m)"
  unfolding is_map_def
  by (metis map_of_eq_Some_iff strict_sorted_iff)

lemma lookup2_assign2:
  "lookup2 (assign2 k1 k2 v m) k l = (if k = k1 \<and> l = k2 then Some v else lookup2 m k l)"
  by (auto simp: lookup2_def assign2_def map_of_assign split: option.splits)

lemma is_map2_assign2: "is_map2 m \<Longrightarrow> is_map2 (assign2 k1 k2 v m)"
proof -
  assume m: "is_map2 m"
  let ?inner = "case map_of m k1 of None \<Rightarrow> [] | Some inner \<Rightarrow> inner"
  have "is_map ?inner"
    using m by (auto simp: is_map2_def is_map_def list_all_iff split: option.splits dest!: map_of_SomeD)
  then have "is_map (assign k2 v ?inner)" by (rule is_map_assign)
  moreover have "set (assign k1 (assign k2 v ?inner) m) \<subseteq> insert (k1, assign k2 v ?inner) (set m)"
    by (rule set_assign_subset)
  ultimately show ?thesis
    using m unfolding is_map2_def assign2_def list_all_iff
    by (auto intro: is_map_assign)
qed

lemma keyPairs_lookup2: "is_map2 m \<Longrightarrow> keyPairs m = {(k, l). lookup2 m k l \<noteq> None}"
proof -
  assume m: "is_map2 m"
  have "((k, l) \<in> keyPairs m) = (lookup2 m k l \<noteq> None)" for k l
  proof
    assume "(k, l) \<in> keyPairs m"
    then obtain inner v where i: "(k, inner) \<in> set m" "(l, v) \<in> set inner"
      by (auto simp: keyPairs_def)
    with m have "is_map m" "is_map inner" by (auto simp: is_map2_def list_all_iff)
    with i have "map_of m k = Some inner" "map_of inner l = Some v"
      by (simp_all add: is_map_map_of)
    then show "lookup2 m k l \<noteq> None" by (simp add: lookup2_def)
  next
    assume "lookup2 m k l \<noteq> None"
    then obtain inner v where "map_of m k = Some inner" "map_of inner l = Some v"
      by (auto simp: lookup2_def split: option.splits)
    then show "(k, l) \<in> keyPairs m"
      by (auto simp: keyPairs_def dest!: map_of_SomeD)
  qed
  then show ?thesis by auto
qed

subsection \<open>The loops of simulateObservations\<close>

lemma simulateObservations_linkEnds_is_map2:
  "simulateObservations_linkEnds sims ot inner acc = Inr res \<Longrightarrow> is_map2 acc \<Longrightarrow> is_map2 res"
proof (induction inner arbitrary: acc)
  case Nil
  then show ?case by simp
next
  case (Cons e inner)
  obtain le s where e: "e = (le, s)" by (cases e)
  from Cons.prems obtain y where
    r: "simulateObservations_linkEnds sims ot inner (assign2 ot le y acc) = Inr res"
    by (auto simp: e split: sum.splits)
  from Cons.IH [OF r is_map2_assign2 [OF Cons.prems(2)]] show ?case .
qed

lemma simulateObservations_observables_is_map2:
  "simulateObservations_observables sims m acc = Inr res \<Longrightarrow> is_map2 acc \<Longrightarrow> is_map2 res"
proof (induction m arbitrary: acc)
  case Nil
  then show ?case by simp
next
  case (Cons e m)
  obtain ot inner where e: "e = (ot, inner)" by (cases e)
  from Cons.prems obtain acc' where
    a: "simulateObservations_linkEnds sims ot inner acc = Inr acc'"
    and r: "simulateObservations_observables sims m acc' = Inr res"
    by (auto simp: e split: sum.splits)
  from Cons.IH [OF r simulateObservations_linkEnds_is_map2 [OF a Cons.prems(2)]] show ?case .
qed

lemma simulateObservations_is_map2:
  "simulateObservations observationsToSimulate sims = Inr res \<Longrightarrow> is_map2 res"
  unfolding simulateObservations_def
  by (erule simulateObservations_observables_is_map2) (simp add: is_map2_def is_map_def)

lemma simulateObservations_linkEnds_keys:
  "simulateObservations_linkEnds sims ot inner acc = Inr res \<Longrightarrow>
   (lookup2 res k l = None) = (lookup2 acc k l = None \<and> \<not> (k = ot \<and> l \<in> fst ` set inner))"
proof (induction inner arbitrary: acc)
  case Nil
  then show ?case by simp
next
  case (Cons e inner)
  obtain le s where e: "e = (le, s)" by (cases e)
  from Cons.prems obtain y where
    y: "simulateLinkEnds sims ot le s = Inr y"
    and r: "simulateObservations_linkEnds sims ot inner (assign2 ot le y acc) = Inr res"
    by (auto simp: e split: sum.splits)
  have "(lookup2 (assign2 ot le y acc) k l = None)
      = (lookup2 acc k l = None \<and> \<not> (k = ot \<and> l = le))"
    by (simp add: lookup2_assign2)
  with Cons.IH [OF r] show ?case
    by (simp add: e) blast
qed

lemma simulateObservations_observables_keys:
  "simulateObservations_observables sims m acc = Inr res \<Longrightarrow>
   (lookup2 res k l = None) = (lookup2 acc k l = None \<and> (k, l) \<notin> keyPairs m)"
proof (induction m arbitrary: acc)
  case Nil
  then show ?case by (simp add: keyPairs_def)
next
  case (Cons e m)
  obtain ot inner where e: "e = (ot, inner)" by (cases e)
  from Cons.prems obtain acc' where
    a: "simulateObservations_linkEnds sims ot inner acc = Inr acc'"
    and r: "simulateObservations_observables sims m acc' = Inr res"
    by (auto simp: e split: sum.splits)
  have "((k, l) \<in> keyPairs (e # m)) = ((k = ot \<and> l \<in> fst ` set inner) \<or> (k, l) \<in> keyPairs m)"
    by (auto simp: keyPairs_def e) force+
  with Cons.IH [OF r] simulateObservations_linkEnds_keys [OF a, of k l] show ?case
    by auto
qed

lemma simulateObservations_linkEnds_entry:
  "simulateObservations_linkEnds sims ot inner acc = Inr res \<Longrightarrow> lookup2 res k l = Some y \<Longrightarrow>
   lookup2 acc k l = Some y
   \<or> (k = ot \<and> (\<exists>s. (l, s) \<in> set inner \<and> simulateLinkEnds sims ot l s = Inr y))"
proof (induction inner arbitrary: acc)
  case Nil
  then show ?case by simp
next
  case (Cons e inner)
  obtain le s where e: "e = (le, s)" by (cases e)
  from Cons.prems obtain y' where
    y: "simulateLinkEnds sims ot le s = Inr y'"
    and r: "simulateObservations_linkEnds sims ot inner (assign2 ot le y' acc) = Inr res"
    by (auto simp: e split: sum.splits)
  from Cons.IH [OF r Cons.prems(2)] y show ?case
    by (auto simp: e lookup2_assign2 split: if_splits)
qed

lemma simulateObservations_observables_entry:
  "simulateObservations_observables sims m acc = Inr res \<Longrightarrow> lookup2 res k l = Some y \<Longrightarrow>
   lookup2 acc k l = Some y
   \<or> (\<exists>inner s. (k, inner) \<in> set m \<and> (l, s) \<in> set inner \<and> simulateLinkEnds sims k l s = Inr y)"
proof (induction m arbitrary: acc)
  case Nil
  then show ?case by simp
next
  case (Cons e m)
  obtain ot inner where e: "e = (ot, inner)" by (cases e)
  from Cons.prems obtain acc' where
    a: "simulateObservations_linkEnds sims ot inner acc = Inr acc'"
    and r: "simulateObservations_observables sims m acc' = Inr res"
    by (auto simp: e split: sum.splits)
  from Cons.IH [OF r Cons.prems(2)] simulateObservations_linkEnds_entry [OF a, of k l y]
  show ?case
    by (auto simp: e)
qed

lemma simulateObservations_keys:
  "simulateObservations observationsToSimulate sims = Inr res \<Longrightarrow>
   keyPairs res = keyPairs observationsToSimulate"
proof -
  assume r: "simulateObservations observationsToSimulate sims = Inr res"
  then have "(lookup2 res k l = None) = ((k, l) \<notin> keyPairs observationsToSimulate)" for k l
    unfolding simulateObservations_def
    by (drule_tac k = k and l = l in simulateObservations_observables_keys) (simp add: lookup2_def)
  with keyPairs_lookup2 [OF simulateObservations_is_map2 [OF r]] show ?thesis
    by auto
qed

lemma simulateObservations_entry:
  "simulateObservations observationsToSimulate sims = Inr res \<Longrightarrow> lookup2 res k l = Some y \<Longrightarrow>
   \<exists>inner s. (k, inner) \<in> set observationsToSimulate \<and> (l, s) \<in> set inner
     \<and> simulateLinkEnds sims k l s = Inr y"
  unfolding simulateObservations_def
  by (drule simulateObservations_observables_entry) (auto simp: lookup2_def)

subsection \<open>The loops of simulateObservationsWithNoise\<close>

text \<open>
  The noise-free observations are a \<^verbatim>\<open>std::map\<close>, so both loops visit ascending keys and
  every assignment appends: the noisy map has the entries of the noise-free one, each
  with the noise added.
\<close>

lemma sorted_keys_append_less:
  "sorted_wrt (<) (map fst acc @ k # ks) \<Longrightarrow> \<forall>x \<in> set acc. fst x < k"
  by (auto simp: sorted_wrt_append)

lemma sorted_keys_append_shift:
  "sorted_wrt (<) (map fst acc @ k # ks) \<Longrightarrow> sorted_wrt (<) (map fst (acc @ [(k, v)]) @ ks)"
  by (auto simp: sorted_wrt_append)

lemma simulateObservationsWithNoise_linkEnds_rel:
  "simulateObservationsWithNoise_linkEnds d nf ot rest acc = Inr res \<Longrightarrow>
   sorted_wrt (<) (map fst acc @ map fst rest) \<Longrightarrow>
   \<exists>res'. res = acc @ res'
     \<and> list_all2 (\<lambda>x y. fst y = fst x
          \<and> addNoiseToLinkEnds d nf ot (fst x) (snd x) = Inr (snd y)) rest res'"
proof (induction rest arbitrary: acc)
  case Nil
  then show ?case by simp
next
  case (Cons e rest)
  obtain le y where e: "e = (le, y)" by (cases e)
  from Cons.prems(1) obtain noisy where
    n: "addNoiseToLinkEnds d nf ot le y = Inr noisy"
    and r: "simulateObservationsWithNoise_linkEnds d nf ot rest (assign le noisy acc) = Inr res"
    by (auto simp: e split: sum.splits)
  from Cons.prems(2) have s: "sorted_wrt (<) (map fst acc @ le # map fst rest)"
    by (simp add: e)
  have a: "assign le noisy acc = acc @ [(le, noisy)]"
    by (rule assign_append) (rule sorted_keys_append_less [OF s])
  from Cons.IH [OF r [unfolded a] sorted_keys_append_shift [OF s]]
  obtain res' where "res = (acc @ [(le, noisy)]) @ res'"
    and "list_all2 (\<lambda>x y. fst y = fst x
          \<and> addNoiseToLinkEnds d nf ot (fst x) (snd x) = Inr (snd y)) rest res'"
    by blast
  with n show ?case
    by (intro exI [of _ "(le, noisy) # res'"]) (simp add: e)
qed

lemma simulateObservationsWithNoise_observables_rel:
  "simulateObservationsWithNoise_observables cat nf rest acc = Inr res \<Longrightarrow>
   sorted_wrt (<) (map fst acc @ map fst rest) \<Longrightarrow>
   list_all (\<lambda>x. is_map (snd x)) rest \<Longrightarrow>
   \<exists>res'. res = acc @ res'
     \<and> list_all2 (\<lambda>x y. fst y = fst x
          \<and> list_all2 (\<lambda>a b. fst b = fst a
               \<and> addNoiseToLinkEnds (cat (fst x)) nf (fst x) (fst a) (snd a) = Inr (snd b))
              (snd x) (snd y)) rest res'"
proof (induction rest arbitrary: acc)
  case Nil
  then show ?case by simp
next
  case (Cons e rest)
  obtain ot inner where e: "e = (ot, inner)" by (cases e)
  from Cons.prems(1) obtain single where
    n: "simulateObservationsWithNoise_linkEnds (cat ot) nf ot inner [] = Inr single"
    and r: "simulateObservationsWithNoise_observables cat nf rest (assign ot single acc) = Inr res"
    by (auto simp: e split: sum.splits)
  from Cons.prems(3) have "sorted_wrt (<) (map fst [] @ map fst inner)"
    by (simp add: e is_map_def)
  from simulateObservationsWithNoise_linkEnds_rel [OF n this]
  have i: "list_all2 (\<lambda>a b. fst b = fst a
               \<and> addNoiseToLinkEnds (cat ot) nf ot (fst a) (snd a) = Inr (snd b)) inner single"
    by simp
  from Cons.prems(2) have s: "sorted_wrt (<) (map fst acc @ ot # map fst rest)"
    by (simp add: e)
  have a: "assign ot single acc = acc @ [(ot, single)]"
    by (rule assign_append) (rule sorted_keys_append_less [OF s])
  from Cons.prems(3) have "list_all (\<lambda>x. is_map (snd x)) rest" by simp
  from Cons.IH [OF r [unfolded a] sorted_keys_append_shift [OF s] this]
  obtain res' where "res = (acc @ [(ot, single)]) @ res'"
    and "list_all2 (\<lambda>x y. fst y = fst x
          \<and> list_all2 (\<lambda>a b. fst b = fst a
               \<and> addNoiseToLinkEnds (cat (fst x)) nf (fst x) (fst a) (snd a) = Inr (snd b))
              (snd x) (snd y)) rest res'"
    by blast
  with i show ?case
    by (intro exI [of _ "(ot, single) # res'"]) (simp add: e)
qed

lemma simulateObservationsWithNoise_linkEnds_same:
  "sorted_wrt (<) (map fst acc @ map fst rest) \<Longrightarrow>
   \<forall>x \<in> set rest. addNoiseToLinkEnds d nf ot (fst x) (snd x) = Inr (snd x) \<Longrightarrow>
   simulateObservationsWithNoise_linkEnds d nf ot rest acc = Inr (acc @ rest)"
proof (induction rest arbitrary: acc)
  case Nil
  then show ?case by simp
next
  case (Cons e rest)
  obtain le y where e: "e = (le, y)" by (cases e)
  from Cons.prems(1) have s: "sorted_wrt (<) (map fst acc @ le # map fst rest)"
    by (simp add: e)
  have a: "assign le y acc = acc @ [(le, y)]"
    by (rule assign_append) (rule sorted_keys_append_less [OF s])
  from Cons.prems(2) have n: "addNoiseToLinkEnds d nf ot le y = Inr y"
    and t: "\<forall>x \<in> set rest. addNoiseToLinkEnds d nf ot (fst x) (snd x) = Inr (snd x)"
    by (simp_all add: e)
  from Cons.IH [OF sorted_keys_append_shift [OF s] t] show ?case
    by (simp add: e n a)
qed

lemma simulateObservationsWithNoise_observables_same:
  "sorted_wrt (<) (map fst acc @ map fst rest) \<Longrightarrow>
   list_all (\<lambda>x. is_map (snd x)) rest \<Longrightarrow>
   \<forall>x \<in> set rest. \<forall>a \<in> set (snd x).
      addNoiseToLinkEnds (cat (fst x)) nf (fst x) (fst a) (snd a) = Inr (snd a) \<Longrightarrow>
   simulateObservationsWithNoise_observables cat nf rest acc = Inr (acc @ rest)"
proof (induction rest arbitrary: acc)
  case Nil
  then show ?case by simp
next
  case (Cons e rest)
  obtain ot inner where e: "e = (ot, inner)" by (cases e)
  from Cons.prems(1) have s: "sorted_wrt (<) (map fst acc @ ot # map fst rest)"
    by (simp add: e)
  have a: "assign ot inner acc = acc @ [(ot, inner)]"
    by (rule assign_append) (rule sorted_keys_append_less [OF s])
  from Cons.prems(2) have "sorted_wrt (<) (map fst [] @ map fst inner)"
    by (simp add: e is_map_def)
  moreover from Cons.prems(3)
  have "\<forall>a \<in> set inner. addNoiseToLinkEnds (cat ot) nf ot (fst a) (snd a) = Inr (snd a)"
    by (simp add: e)
  ultimately have n: "simulateObservationsWithNoise_linkEnds (cat ot) nf ot inner [] = Inr inner"
    using simulateObservationsWithNoise_linkEnds_same [of "[]" inner "cat ot" nf ot] by simp
  from Cons.prems(2) have l: "list_all (\<lambda>x. is_map (snd x)) rest" by simp
  from Cons.prems(3) have t: "\<forall>x \<in> set rest. \<forall>a \<in> set (snd x).
      addNoiseToLinkEnds (cat (fst x)) nf (fst x) (fst a) (snd a) = Inr (snd a)"
    by simp
  from Cons.IH [OF sorted_keys_append_shift [OF s] l t] show ?case
    by (simp add: e n a)
qed

lemma list_all2_map_of:
  "list_all2 (\<lambda>x y. fst y = fst x \<and> P (fst x) (snd x) (snd y)) xs ys \<Longrightarrow>
   map_of ys k = Some b \<Longrightarrow> \<exists>a. map_of xs k = Some a \<and> P k a b"
  by (induction xs ys rule: list_all2_induct) (auto split: if_splits)

lemma list_all2_keys:
  "list_all2 (\<lambda>x y. fst y = fst x \<and> P x y) xs ys \<Longrightarrow> map fst ys = map fst xs"
  by (induction xs ys rule: list_all2_induct) auto

lemma simulateObservationsWithNoise_entry:
  assumes "simulateObservationsWithNoise cat s sims nf = Inr noisy"
    and "lookup2 noisy ot le = Some x"
  shows "\<exists>free y. simulateObservations s sims = Inr free \<and> lookup2 free ot le = Some y
          \<and> addNoiseToLinkEnds (cat ot) nf ot le y = Inr x"
proof -
  from assms(1) obtain free where
    f: "simulateObservations s sims = Inr free"
    and n: "simulateObservationsWithNoise_observables cat nf free [] = Inr noisy"
    by (auto simp: simulateObservationsWithNoise_def split: sum.splits)
  from simulateObservations_is_map2 [OF f]
  have "sorted_wrt (<) (map fst [] @ map fst free)" "list_all (\<lambda>x. is_map (snd x)) free"
    by (auto simp: is_map2_def is_map_def list_all_iff)
  from simulateObservationsWithNoise_observables_rel [OF n this]
  have r: "list_all2 (\<lambda>x y. fst y = fst x
          \<and> list_all2 (\<lambda>a b. fst b = fst a
               \<and> addNoiseToLinkEnds (cat (fst x)) nf (fst x) (fst a) (snd a) = Inr (snd b))
              (snd x) (snd y)) free noisy"
    by simp
  from assms(2) obtain inner' where i': "map_of noisy ot = Some inner'" "map_of inner' le = Some x"
    by (auto simp: lookup2_def split: option.splits)
  from list_all2_map_of [where P = "\<lambda>k a b. list_all2 (\<lambda>a' b'. fst b' = fst a'
               \<and> addNoiseToLinkEnds (cat k) nf k (fst a') (snd a') = Inr (snd b')) a b",
      OF r i'(1)]
  obtain inner where i: "map_of free ot = Some inner"
    and ri: "list_all2 (\<lambda>a' b'. fst b' = fst a'
               \<and> addNoiseToLinkEnds (cat ot) nf ot (fst a') (snd a') = Inr (snd b')) inner inner'"
    by blast
  from list_all2_map_of [where P = "\<lambda>k a b. addNoiseToLinkEnds (cat ot) nf ot k a = Inr b",
      OF ri i'(2)]
  obtain y where "map_of inner le = Some y" "addNoiseToLinkEnds (cat ot) nf ot le y = Inr x"
    by blast
  with f i show ?thesis
    by (intro exI [of _ free] exI [of _ y]) (simp add: lookup2_def)
qed

lemma addNoiseToLinkEnds_Inr:
  assumes "addNoiseToLinkEnds d nf ot le (nominalValues, nominalTimes, lt) = Inr x"
  obtains f noisyValues where "lookup2 nf ot le = Some f"
    "addNoise d f 0 nominalTimes nominalValues = Inr noisyValues" "x = (noisyValues, nominalTimes, lt)"
    "d \<noteq> 0" "int (length nominalTimes) = int (length nominalValues) sdiv d"
  using assms
  by (auto simp: addNoiseToLinkEnds_def lookup2_def Let_def split: if_splits option.splits sum.splits)

text \<open>
  C10. When \<open>simulateObservations\<close> succeeds, the observable and link end pairs of its
  result are exactly those of the time settings; when \<open>simulateObservationsWithNoise\<close>
  succeeds, its result has the observables and, for each, the link ends of the
  noise-free observations, in the same order.
\<close>

theorem key_structure_preserved:
  "(simulateObservations observationsToSimulate observationSimulators = Inr observations
      \<longrightarrow> keyPairs observations = keyPairs observationsToSimulate)
   \<and> (simulateObservationsWithNoise getObservableSize observationsToSimulate
         observationSimulators noiseFunctions = Inr noisy
      \<longrightarrow> (\<exists>noiseFree.
            simulateObservations observationsToSimulate observationSimulators = Inr noiseFree
          \<and> keyStructure noisy = keyStructure noiseFree))"
proof (intro conjI impI)
  assume "simulateObservations observationsToSimulate observationSimulators = Inr observations"
  then show "keyPairs observations = keyPairs observationsToSimulate"
    by (rule simulateObservations_keys)
next
  assume "simulateObservationsWithNoise getObservableSize observationsToSimulate
         observationSimulators noiseFunctions = Inr noisy"
  then obtain noiseFree where
    f: "simulateObservations observationsToSimulate observationSimulators = Inr noiseFree"
    and n: "simulateObservationsWithNoise_observables getObservableSize noiseFunctions
              noiseFree [] = Inr noisy"
    by (auto simp: simulateObservationsWithNoise_def split: sum.splits)
  from simulateObservations_is_map2 [OF f]
  have "sorted_wrt (<) (map fst [] @ map fst noiseFree)"
    "list_all (\<lambda>x. is_map (snd x)) noiseFree"
    by (auto simp: is_map2_def is_map_def list_all_iff)
  from simulateObservationsWithNoise_observables_rel [OF n this]
  have "list_all2 (\<lambda>x y. fst y = fst x
          \<and> list_all2 (\<lambda>a b. fst b = fst a
               \<and> addNoiseToLinkEnds (getObservableSize (fst x)) noiseFunctions (fst x) (fst a)
                    (snd a) = Inr (snd b))
              (snd x) (snd y)) noiseFree noisy"
    by simp
  then have "keyStructure noisy = keyStructure noiseFree"
    unfolding keyStructure_def
    by (induction noiseFree noisy rule: list_all2_induct)
      (auto simp: case_prod_beta dest: list_all2_keys)
  with f show "\<exists>noiseFree.
            simulateObservations observationsToSimulate observationSimulators = Inr noiseFree
          \<and> keyStructure noisy = keyStructure noiseFree"
    by blast
qed

theorem key_structure_preserved_witness:
  "simulateObservations exampleTimes [(5, Some exampleSimulator1)]
     = Inr [(5, [(0, [0, 2, 4], [0, 1, 2], 7)])]
   \<and> keyPairs [(5::nat, [(0::nat, [0, 2, 4::int], [0, 1, 2::int], 7::int)])] = keyPairs exampleTimes
   \<and> simulateObservationsWithNoise exampleSizes1 exampleTimes [(5, Some exampleSimulator1)]
         [(5, [(0, exampleNoise1)])]
     = Inr [(5, [(0, [10, 12, 14], [0, 1, 2], 7)])]
   \<and> keyStructure [(5::nat, [(0::nat, [10, 12, 14::int], [0, 1, 2::int], 7::int)])]
     = keyStructure [(5::nat, [(0::nat, [0, 2, 4::int], [0, 1, 2::int], 7::int)])]"
proof -
  have a: "simulateObservations exampleTimes [(5, Some exampleSimulator1)]
     = Inr [(5, [(0, [0, 2, 4], [0, 1, 2], 7)])]"
    by (simp add: example_defs simulate_defs)
  have b: "simulateObservationsWithNoise exampleSizes1 exampleTimes [(5, Some exampleSimulator1)]
         [(5, [(0, exampleNoise1)])]
     = Inr [(5, [(0, [10, 12, 14], [0, 1, 2], 7)])]"
    by (simp add: example_defs simulate_defs noise_defs)
  from key_structure_preserved [of exampleTimes "[(5, Some exampleSimulator1)]"
      "[(5, [(0, [0, 2, 4], [0, 1, 2], 7)])]" exampleSizes1 "[(5, [(0, exampleNoise1)])]"
      "[(5, [(0, [10, 12, 14], [0, 1, 2], 7)])]"] a b
  show ?thesis by simp
qed

subsection \<open>The noise added to the samples\<close>

lemma segmentAdd_Inr:
  assumes "segmentAdd v start n w = Inr v'"
  shows "0 \<le> start" "0 \<le> n" "nat start + nat n \<le> length v" "length w = nat n"
    "length v' = length v"
    "take (nat start) v' = take (nat start) v"
    "drop (nat start + nat n) v' = drop (nat start + nat n) v"
    "take (nat n) (drop (nat start) v') = map2 (+) (take (nat n) (drop (nat start) v)) w"
proof -
  from assms have c: "0 \<le> start" "0 \<le> n" "start + n \<le> int (length v)" "int (length w) = n"
    and v': "v' = take (nat start) v @ map2 (+) (take (nat n) (drop (nat start) v)) w
                @ drop (nat start + nat n) v"
    by (auto simp: segmentAdd_def split: if_splits)
  from c show "0 \<le> start" "0 \<le> n" by simp_all
  from c show le: "nat start + nat n \<le> length v" by linarith
  from c show lw: "length w = nat n" by linarith
  from le lw show "length v' = length v" by (simp add: v')
  from le show "take (nat start) v' = take (nat start) v" by (simp add: v')
  have l1: "length (take (nat start) v) = nat start" using le by simp
  have l2: "length (map2 (+) (take (nat n) (drop (nat start) v)) w) = nat n"
    using le lw by simp
  show "drop (nat start + nat n) v' = drop (nat start + nat n) v"
    unfolding v' using l1 l2 by (simp add: drop_append del: drop_drop)
  show "take (nat n) (drop (nat start) v') = map2 (+) (take (nat n) (drop (nat start) v)) w"
    unfolding v' using l1 l2 by (simp add: drop_append)
qed

lemma addNoise_Cons_Inr:
  assumes "addNoise d f i (t # ts) v = Inr v'"
  obtains w v1 where "callNoise f t = Inr w" "segmentAdd v (int i * d) d w = Inr v1"
    "addNoise d f (Suc i) ts v1 = Inr v'"
  using assms by (auto split: sum.splits if_splits)

lemma block_of_take: "take n (drop m xs) = drop m (take (m + n) xs)"
  by (simp add: drop_take)

lemma addNoise_prefix:
  "addNoise d f i ts v = Inr v' \<Longrightarrow>
   length v' = length v \<and> take (i * nat d) v' = take (i * nat d) v"
proof (induction ts arbitrary: i v)
  case Nil
  then show ?case by simp
next
  case (Cons t ts)
  from Cons.prems obtain w v1 where
    s: "segmentAdd v (int i * d) d w = Inr v1" and r: "addNoise d f (Suc i) ts v1 = Inr v'"
    by (rule addNoise_Cons_Inr)
  from segmentAdd_Inr(2) [OF s] have st: "nat (int i * d) = i * nat d"
    by (simp add: nat_mult_distrib)
  from Cons.IH [OF r] have l: "length v' = length v1"
    and p: "take (Suc i * nat d) v' = take (Suc i * nat d) v1" by simp_all
  have "take (i * nat d) (take (Suc i * nat d) v') = take (i * nat d) (take (Suc i * nat d) v1)"
    by (simp only: p)
  then have "take (i * nat d) v' = take (i * nat d) v1"
    by (simp add: min_def)
  also have "\<dots> = take (i * nat d) v"
    using segmentAdd_Inr(6) [OF s] by (simp add: st)
  finally show ?case
    using l segmentAdd_Inr(5) [OF s] by simp
qed

lemma addNoise_blocks:
  "addNoise d f i ts v = Inr v' \<Longrightarrow> j < length ts \<Longrightarrow>
   \<exists>w. callNoise f (ts ! j) = Inr w \<and> length w = nat d
     \<and> (i + j + 1) * nat d \<le> length v
     \<and> take (nat d) (drop ((i + j) * nat d) v')
         = map2 (+) (take (nat d) (drop ((i + j) * nat d) v)) w"
proof (induction ts arbitrary: i v j)
  case Nil
  then show ?case by simp
next
  case (Cons t ts)
  from Cons.prems(1) obtain w v1 where
    c: "callNoise f t = Inr w" and
    s: "segmentAdd v (int i * d) d w = Inr v1" and r: "addNoise d f (Suc i) ts v1 = Inr v'"
    by (rule addNoise_Cons_Inr)
  from segmentAdd_Inr(2) [OF s] have st: "nat (int i * d) = i * nat d"
    by (simp add: nat_mult_distrib)
  note sa = segmentAdd_Inr [OF s, unfolded st]
  show ?case
  proof (cases j)
    case 0
    from addNoise_prefix [OF r]
    have p: "take (i * nat d + nat d) v' = take (i * nat d + nat d) v1" by (simp add: add.commute)
    have "take (nat d) (drop (i * nat d) v') = take (nat d) (drop (i * nat d) v1)"
      by (simp only: block_of_take p)
    with sa(8) c sa(4) sa(3) show ?thesis
      by (simp add: 0)
  next
    case (Suc j')
    with Cons.prems(2) have "j' < length ts" by simp
    from Cons.IH [OF r this] obtain w' where
      w': "callNoise f (ts ! j') = Inr w'" "length w' = nat d"
        "(Suc i + j' + 1) * nat d \<le> length v1"
        "take (nat d) (drop ((Suc i + j') * nat d) v')
           = map2 (+) (take (nat d) (drop ((Suc i + j') * nat d) v1)) w'"
      by blast
    have "drop ((Suc i + j') * nat d) v1 = drop (j' * nat d) (drop (i * nat d + nat d) v1)"
      by (simp add: algebra_simps)
    also have "\<dots> = drop (j' * nat d) (drop (i * nat d + nat d) v)"
      by (simp only: sa(7))
    also have "\<dots> = drop ((Suc i + j') * nat d) v"
      by (simp add: algebra_simps)
    finally have "drop ((Suc i + j') * nat d) v1 = drop ((Suc i + j') * nat d) v" .
    with w' sa(5) show ?thesis
      by (simp add: Suc)
  qed
qed

text \<open>
  C1, as stated: for every sample \<open>i\<close>, segment \<open>i\<close> of the noisy values minus segment \<open>i\<close>
  of the noise-free values is exactly the value of the noise function at the time \<open>i\<close>.
  The values are doubles and the noise is added by \<^verbatim>\<open>+=\<close>, which rounds the sum. Here a
  model that returns twice the time is simulated at the times 0.0, 1.0 and 2.0 with the
  constant noise 0.1: the noise-free values are 0.0, 2.0 and 4.0, the noisy values are
  0.1, 2.1 and 4.1, and at the time 1.0 the difference 2.1 - 2.0 is
  0.10000000000000009, which is not the noise 0.1.
\<close>

theorem noise_difference_is_rounded:
  "simulateObservations exampleDoubleTimes [(5, Some exampleDoubleSimulator)]
     = Inr [(5, [(0, [0, double2, double4], [0, double1, double2], 7)])]
   \<and> simulateObservationsWithNoise exampleSizes1 exampleDoubleTimes
         [(5, Some exampleDoubleSimulator)] [(5, [(0, exampleDoubleNoise)])]
     = Inr [(5, [(0, [double01, double21, double41], [0, double1, double2], 7)])]
   \<and> callNoise exampleDoubleNoise ([0, double1, double2] ! 1) = Inr [double01]
   \<and> map2 (-)
       (segment [double01, double21, double41] (1 * nat (exampleSizes1 5)) (nat (exampleSizes1 5)))
       (segment [0, double2, double4] (1 * nat (exampleSizes1 5)) (nat (exampleSizes1 5)))
     = [Finite False 7205759403792800 (- 56)]
   \<and> [Finite False 7205759403792800 (- 56)] \<noteq> [double01]"
proof -
  have "simulateObservations exampleDoubleTimes [(5, Some exampleDoubleSimulator)]
     = Inr [(5, [(0, [0, double2, double4], [0, double1, double2], 7)])]"
    by (simp add: exampleDoubleTimes_def exampleDoubleSimulator_def simulate_defs double_sums)
  moreover have "simulateObservationsWithNoise exampleSizes1 exampleDoubleTimes
         [(5, Some exampleDoubleSimulator)] [(5, [(0, exampleDoubleNoise)])]
     = Inr [(5, [(0, [double01, double21, double41], [0, double1, double2], 7)])]"
    by (simp add: exampleDoubleTimes_def exampleDoubleSimulator_def exampleDoubleNoise_def
        exampleSizes1_def simulate_defs noise_defs double_sums)
  moreover have "callNoise exampleDoubleNoise ([0, double1, double2] ! 1) = Inr [double01]"
    by (simp add: callNoise_def exampleDoubleNoise_def)
  moreover have "map2 (-)
       (segment [double01, double21, double41] (1 * nat (exampleSizes1 5)) (nat (exampleSizes1 5)))
       (segment [0, double2, double4] (1 * nat (exampleSizes1 5)) (nat (exampleSizes1 5)))
     = [Finite False 7205759403792800 (- 56)]"
    by (simp add: segment_def exampleSizes1_def double_difference)
  moreover have "[Finite False 7205759403792800 (- 56)] \<noteq> [double01]"
    by (simp add: double01_def)
  ultimately show ?thesis
    by (intro conjI)
qed

text \<open>
  C1, amended. When \<open>simulateObservationsWithNoise\<close> succeeds, every entry of its result
  has the times and the reference link end of the entry of the noise-free observations
  for the same observable and link ends, and for every sample \<open>i\<close> the noise function
  returns at the time \<open>i\<close> a vector of the size of the observable, and segment \<open>i\<close> of the
  noisy values is segment \<open>i\<close> of the noise-free values plus that vector, coefficient by
  coefficient, in the sum of the scalar type (for doubles, the rounded sum).
\<close>

theorem noisy_segment_is_sum:
  fixes noisy :: "('ot::linorder, 'le::linorder, 't, 'a::plus) ObservationsMap"
  assumes "simulateObservationsWithNoise getObservableSize observationsToSimulate
             observationSimulators noiseFunctions = Inr noisy"
    and "lookup2 noisy observable linkEnds = Some (noisyValues, nominalTimes, linkEndType)"
  shows "\<exists>noiseFree nominalValues noiseFunction.
      simulateObservations observationsToSimulate observationSimulators = Inr noiseFree
    \<and> lookup2 noiseFree observable linkEnds = Some (nominalValues, nominalTimes, linkEndType)
    \<and> lookup2 noiseFunctions observable linkEnds = Some noiseFunction
    \<and> (\<forall>i < length nominalTimes. \<exists>noise.
          callNoise noiseFunction (nominalTimes ! i) = Inr noise
        \<and> length noise = nat (getObservableSize observable)
        \<and> (i + 1) * nat (getObservableSize observable) \<le> length nominalValues
        \<and> segment noisyValues (i * nat (getObservableSize observable))
              (nat (getObservableSize observable))
          = map2 (+)
              (segment nominalValues (i * nat (getObservableSize observable))
                 (nat (getObservableSize observable)))
              noise)"
proof -
  let ?d = "getObservableSize observable"
  from simulateObservationsWithNoise_entry [OF assms]
  obtain noiseFree y where
    f: "simulateObservations observationsToSimulate observationSimulators = Inr noiseFree"
    and y: "lookup2 noiseFree observable linkEnds = Some y"
    and a: "addNoiseToLinkEnds ?d noiseFunctions observable linkEnds y
              = Inr (noisyValues, nominalTimes, linkEndType)"
    by blast
  obtain nominalValues nominalTimes' lt' where yy: "y = (nominalValues, nominalTimes', lt')"
    by (cases y)
  from a [unfolded yy] obtain noiseFunction where
    n: "lookup2 noiseFunctions observable linkEnds = Some noiseFunction"
    and l: "addNoise ?d noiseFunction 0 nominalTimes' nominalValues = Inr noisyValues"
    and e: "(noisyValues, nominalTimes, linkEndType) = (noisyValues, nominalTimes', lt')"
    by (elim addNoiseToLinkEnds_Inr) auto
  from e have t: "nominalTimes' = nominalTimes" "lt' = linkEndType" by simp_all
  have "\<exists>noise. callNoise noiseFunction (nominalTimes ! i) = Inr noise
        \<and> length noise = nat ?d \<and> (i + 1) * nat ?d \<le> length nominalValues
        \<and> segment noisyValues (i * nat ?d) (nat ?d)
            = map2 (+) (segment nominalValues (i * nat ?d) (nat ?d)) noise"
    if "i < length nominalTimes" for i
    using addNoise_blocks [OF l, of i] that t by (auto simp: segment_def)
  with f y n t show ?thesis
    by (auto simp: yy)
qed

theorem noisy_segment_is_sum_witness:
  "simulateObservationsWithNoise exampleSizes1 exampleDoubleTimes
         [(5, Some exampleDoubleSimulator)] [(5, [(0, exampleDoubleNoise)])]
     = Inr [(5, [(0, [double01, double21, double41], [0, double1, double2], 7)])]
   \<and> lookup2 [(5::nat, [(0::nat, [double01, double21, double41], [0, double1, double2], 7::int)])]
       5 0
     = Some ([double01, double21, double41], [0, double1, double2], 7)
   \<and> (\<exists>noiseFree nominalValues noiseFunction.
        simulateObservations exampleDoubleTimes [(5, Some exampleDoubleSimulator)] = Inr noiseFree
      \<and> lookup2 noiseFree 5 0 = Some (nominalValues, [0, double1, double2], 7)
      \<and> lookup2 [(5::nat, [(0::nat, exampleDoubleNoise)])] 5 0 = Some noiseFunction
      \<and> (\<forall>i < length [0, double1, double2]. \<exists>noise.
            callNoise noiseFunction ([0, double1, double2] ! i) = Inr noise
          \<and> length noise = nat (exampleSizes1 5)
          \<and> (i + 1) * nat (exampleSizes1 5) \<le> length nominalValues
          \<and> segment [double01, double21, double41] (i * nat (exampleSizes1 5))
                (nat (exampleSizes1 5))
            = map2 (+)
                (segment nominalValues (i * nat (exampleSizes1 5)) (nat (exampleSizes1 5)))
                noise))"
proof -
  have a: "simulateObservationsWithNoise exampleSizes1 exampleDoubleTimes
         [(5, Some exampleDoubleSimulator)] [(5, [(0, exampleDoubleNoise)])]
     = Inr [(5, [(0, [double01, double21, double41], [0, double1, double2], 7)])]"
    by (simp add: exampleDoubleTimes_def exampleDoubleSimulator_def exampleDoubleNoise_def
        exampleSizes1_def simulate_defs noise_defs double_sums)
  have b: "lookup2
       [(5::nat, [(0::nat, [double01, double21, double41], [0, double1, double2], 7::int)])] 5 0
     = Some ([double01, double21, double41], [0, double1, double2], 7)"
    by (simp add: lookup2_def)
  from noisy_segment_is_sum [OF a b] a b show ?thesis
    by (intro conjI)
qed

text \<open>
  The check of the sample count: it fails exactly when the number of times differs from
  the quotient, rounded towards zero, of the number of values by the observable size;
  for a positive size it passes whenever the values are that many for each time.
\<close>

lemma sample_count_check:
  assumes "currentObservableSize \<noteq> 0"
    and "int (length nominalTimes) \<noteq> int (length nominalValues) sdiv currentObservableSize"
  shows "addNoiseToLinkEnds currentObservableSize noiseFunctions observable linkEnds
           (nominalValues, nominalTimes, linkEndType) = Inl InconsistentSampleCountError"
  using assms by (simp add: addNoiseToLinkEnds_def)

lemma sample_count_exact:
  assumes "0 < currentObservableSize"
    and "int (length nominalTimes) * currentObservableSize = int (length nominalValues)"
  shows "int (length nominalTimes) = int (length nominalValues) sdiv currentObservableSize"
proof (cases "length nominalTimes = 0")
  case True
  with assms(2) show ?thesis by simp
next
  case False
  with assms show ?thesis
    by (simp add: signed_divide_int_def sgn_if abs_mult flip: assms(2))
qed

text \<open>
  C4. The check of the sample count is meant to fail whenever the number of times
  multiplied by the size of the observable differs from the number of values. Here it
  is evaluated for an observable of size 2 simulated by a simulator of size 3 at a
  single time, three values for one time: the check compares 1 with 3 / 2, which is 1,
  and does not fail; the call returns, with the noise added to the first two values.
\<close>

theorem sample_count_check_truncates:
  "int (length [10::int]) * exampleSizes2 5 \<noteq> int (length [10, 11, 12::int])
   \<and> addNoiseToLinkEnds (exampleSizes2 5) [(5::nat, [(0::nat, exampleNoise2)])] 5 0
         ([10, 11, 12], [10], 7)
     = Inr ([110, 111, 12], [10], 7)
   \<and> simulateObservations exampleSingleTime [(5, Some exampleSimulator3)]
     = Inr [(5, [(0, [10, 11, 12], [10], 7)])]
   \<and> simulateObservationsWithNoise exampleSizes2 exampleSingleTime [(5, Some exampleSimulator3)]
         [(5, [(0, exampleNoise2)])]
     = Inr [(5, [(0, [110, 111, 12], [10], 7)])]"
  by (simp add: example_defs simulate_defs noise_defs)

lemma addNoise_later_samples:
  "0 < i \<Longrightarrow> \<forall>t \<in> set ts. \<exists>noise. callNoise f t = Inr noise \<Longrightarrow>
   addNoise d f i ts v \<noteq> Inl InconsistentNoiseSizeError"
proof (induction ts arbitrary: i v)
  case Nil
  then show ?case by simp
next
  case (Cons t ts)
  from Cons.prems(2) obtain w where w: "callNoise f t = Inr w" by auto
  from Cons.prems(2) have r: "\<forall>t \<in> set ts. \<exists>noise. callNoise f t = Inr noise" by simp
  show ?case
  proof (cases "segmentAdd v (int i * d) d w")
    case (Inl e)
    then have "e = EigenAssertion" by (auto simp: segmentAdd_def split: if_splits)
    with Inl w Cons.prems(1) show ?thesis by simp
  next
    case (Inr v1)
    with Cons.IH [OF _ r, of "Suc i" v1] w Cons.prems(1) show ?thesis by simp
  qed
qed

lemma addNoise_first_sample:
  assumes "\<forall>t \<in> set ts. \<exists>noise. callNoise f t = Inr noise"
  shows "(addNoise d f 0 ts v = Inl InconsistentNoiseSizeError)
     = (ts \<noteq> [] \<and> (\<exists>noise. callNoise f (ts ! 0) = Inr noise \<and> int (length noise) \<noteq> d))"
proof (cases ts)
  case Nil
  then show ?thesis by simp
next
  case (Cons t ts')
  from assms Cons obtain w where w: "callNoise f t = Inr w" by auto
  from assms Cons have r: "\<forall>t \<in> set ts'. \<exists>noise. callNoise f t = Inr noise" by simp
  show ?thesis
  proof (cases "int (length w) = d")
    case False
    with w show ?thesis by (simp add: Cons)
  next
    case True
    show ?thesis
    proof (cases "segmentAdd v (int 0 * d) d w")
      case (Inl e)
      then have "e = EigenAssertion" by (auto simp: segmentAdd_def split: if_splits)
      with Inl w True show ?thesis by (simp add: Cons)
    next
      case (Inr v1)
      with addNoise_later_samples [OF _ r, of "Suc 0" d v1] w True show ?thesis
        by (simp add: Cons)
    qed
  qed
qed

text \<open>
  C9. For an entry that has passed the check of the sample count, with its noise
  function found and returning a vector at each time: the entry fails with
  \<open>InconsistentNoiseSizeError\<close> exactly when there is a first time and the noise vector
  at it has not the size of the observable. The noise vectors at the later times do not
  decide this error, and with no times the entry is returned as it is.
\<close>

theorem noise_size_checked_at_first_sample:
  assumes "currentObservableSize \<noteq> 0"
    and "int (length nominalTimes) = int (length nominalValues) sdiv currentObservableSize"
    and "lookup2 noiseFunctions observable linkEnds = Some noiseFunction"
    and "\<forall>t \<in> set nominalTimes. \<exists>noise. callNoise noiseFunction t = Inr noise"
  shows "((addNoiseToLinkEnds currentObservableSize noiseFunctions observable linkEnds
             (nominalValues, nominalTimes, linkEndType) = Inl InconsistentNoiseSizeError)
          = (nominalTimes \<noteq> []
             \<and> (\<exists>noise. callNoise noiseFunction (nominalTimes ! 0) = Inr noise
                  \<and> int (length noise) \<noteq> currentObservableSize)))
     \<and> (nominalTimes = [] \<longrightarrow>
          addNoiseToLinkEnds currentObservableSize noiseFunctions observable linkEnds
             (nominalValues, nominalTimes, linkEndType)
           = Inr (nominalValues, nominalTimes, linkEndType))"
proof -
  from assms(3) obtain linkEndNoise where
    "map_of noiseFunctions observable = Some linkEndNoise"
    "map_of linkEndNoise linkEnds = Some noiseFunction"
    by (auto simp: lookup2_def split: option.splits)
  with assms(1,2)
  have "addNoiseToLinkEnds currentObservableSize noiseFunctions observable linkEnds
             (nominalValues, nominalTimes, linkEndType)
     = (case addNoise currentObservableSize noiseFunction 0 nominalTimes nominalValues of
          Inl e \<Rightarrow> Inl e | Inr noisy \<Rightarrow> Inr (noisy, nominalTimes, linkEndType))"
    by (simp add: addNoiseToLinkEnds_def split: sum.splits)
  with addNoise_first_sample [OF assms(4), of currentObservableSize nominalValues]
  show ?thesis
    by (auto split: sum.splits)
qed

theorem noise_size_checked_at_first_sample_witness:
  "exampleSizes1 5 \<noteq> 0
   \<and> int (length [0, 1, 2::int]) = int (length [0, 2, 4::int]) sdiv exampleSizes1 5
   \<and> lookup2 [(5::nat, [(0::nat, exampleNoise2)])] 5 0 = Some exampleNoise2
   \<and> callNoise exampleNoise2 ([0, 1, 2] ! 0) = Inr [100, 100]
   \<and> addNoiseToLinkEnds (exampleSizes1 5) [(5::nat, [(0::nat, exampleNoise2)])] 5 0
         ([0, 2, 4], [0, 1, 2], 7)
     = Inl InconsistentNoiseSizeError"
proof -
  have h1: "exampleSizes1 5 \<noteq> 0"
    by (simp add: exampleSizes1_def)
  have h2: "int (length [0, 1, 2::int]) = int (length [0, 2, 4::int]) sdiv exampleSizes1 5"
    by (simp add: exampleSizes1_def)
  have h3: "lookup2 [(5::nat, [(0::nat, exampleNoise2)])] 5 0 = Some exampleNoise2"
    by (simp add: lookup2_def)
  have h4: "\<forall>t \<in> set [0, 1, 2::int]. \<exists>noise. callNoise exampleNoise2 t = Inr noise"
    by (simp add: callNoise_def exampleNoise2_def)
  have c: "callNoise exampleNoise2 ([0, 1, 2::int] ! 0) = Inr [100, 100]"
    by (simp add: callNoise_def exampleNoise2_def)
  from noise_size_checked_at_first_sample [OF h1 h2 h3 h4, of 7] c h1 h2 h3
  show ?thesis
    by (simp add: exampleSizes1_def)
qed

subsection \<open>Maps filled by nested loops\<close>

lemma fold_assign2_keys:
  "(lookup2 (fold (\<lambda>e acc. assign2 k (fst e) (g e) acc) inner acc) k' l' = None)
   = (lookup2 acc k' l' = None \<and> \<not> (k' = k \<and> l' \<in> fst ` set inner))"
  by (induction inner arbitrary: acc) (auto simp: lookup2_assign2)

lemma fold_assign2_entry:
  "lookup2 (fold (\<lambda>e acc. assign2 k (fst e) (g e) acc) inner acc) k' l' = Some v \<Longrightarrow>
   lookup2 acc k' l' = Some v \<or> (k' = k \<and> (\<exists>e \<in> set inner. fst e = l' \<and> v = g e))"
proof (induction inner arbitrary: acc)
  case Nil
  then show ?case by simp
next
  case (Cons e inner)
  from Cons.IH [of "assign2 k (fst e) (g e) acc"] Cons.prems show ?case
    by (auto simp: lookup2_assign2 split: if_splits)
qed

lemma keyPairs_Cons:
  "((k, l) \<in> keyPairs (e # m)) = ((k = fst e \<and> l \<in> fst ` set (snd e)) \<or> (k, l) \<in> keyPairs m)"
proof (cases e)
  case (Pair k' inner)
  have "(\<exists>v. (l, v) \<in> set inner) = (l \<in> fst ` set inner)"
    by force
  then show ?thesis
    unfolding keyPairs_def Pair by auto
qed

lemma fold_fold_assign2_keys:
  "(lookup2 (fold (\<lambda>p acc. fold (\<lambda>e acc. assign2 (fst p) (fst e) (g p e) acc) (snd p) acc) m acc)
      k l = None)
   = (lookup2 acc k l = None \<and> (k, l) \<notin> keyPairs m)"
proof (induction m arbitrary: acc)
  case Nil
  then show ?case by (simp add: keyPairs_def)
next
  case (Cons o' m)
  show ?case
    by (simp add: Cons.IH fold_assign2_keys keyPairs_Cons)
qed

lemma fold_fold_assign2_entry:
  "lookup2 (fold (\<lambda>p acc. fold (\<lambda>e acc. assign2 (fst p) (fst e) (g p e) acc) (snd p) acc) m acc)
      k l = Some v \<Longrightarrow>
   lookup2 acc k l = Some v
   \<or> (\<exists>p \<in> set m. \<exists>e \<in> set (snd p). fst p = k \<and> fst e = l \<and> v = g p e)"
proof (induction m arbitrary: acc)
  case Nil
  then show ?case by simp
next
  case (Cons o' m)
  from Cons.IH [of "fold (\<lambda>e acc. assign2 (fst o') (fst e) (g o' e) acc) (snd o') acc"] Cons.prems
  have "lookup2 (fold (\<lambda>e acc. assign2 (fst o') (fst e) (g o' e) acc) (snd o') acc) k l = Some v
    \<or> (\<exists>p \<in> set m. \<exists>e \<in> set (snd p). fst p = k \<and> fst e = l \<and> v = g p e)"
    by simp
  then show ?case
    using fold_assign2_entry [of "fst o'" "g o'" "snd o'" acc k l v] by auto
qed

lemma createObservationSimulationTimeSettingsMap_fold:
  "createObservationSimulationTimeSettingsMap originalMap =
     fold (\<lambda>p acc. fold (\<lambda>e acc. assign2 (fst p) (fst e)
        (Some (TabulatedObservationSimulationTimeSettings (snd (snd e)) (fst (snd e)))) acc)
        (snd p) acc) originalMap []"
  by (simp add: createObservationSimulationTimeSettingsMap_def split_def)

lemma lookup2_Nil: "lookup2 [] k l = None"
  by (simp add: lookup2_def)

lemma createObservationSimulationTimeSettingsMap_lookup:
  assumes "is_map2 originalMap"
  shows "lookup2 (createObservationSimulationTimeSettingsMap originalMap) k l =
     (case lookup2 originalMap k l of
        None \<Rightarrow> None
      | Some (simulationTimes, linkEndType) \<Rightarrow>
          Some (Some (TabulatedObservationSimulationTimeSettings linkEndType simulationTimes)))"
proof (cases "lookup2 originalMap k l")
  case None
  with keyPairs_lookup2 [OF assms] have "(k, l) \<notin> keyPairs originalMap" by auto
  then have "lookup2 (createObservationSimulationTimeSettingsMap originalMap) k l = None"
    by (simp add: createObservationSimulationTimeSettingsMap_fold fold_fold_assign2_keys lookup2_Nil)
  with None show ?thesis by simp
next
  case (Some x)
  with keyPairs_lookup2 [OF assms] have "(k, l) \<in> keyPairs originalMap" by auto
  then have "lookup2 (createObservationSimulationTimeSettingsMap originalMap) k l \<noteq> None"
    by (simp add: createObservationSimulationTimeSettingsMap_fold fold_fold_assign2_keys lookup2_Nil)
  then obtain v where v: "lookup2 (createObservationSimulationTimeSettingsMap originalMap) k l = Some v"
    by blast
  from fold_fold_assign2_entry [OF v [unfolded createObservationSimulationTimeSettingsMap_fold]]
  obtain o' e where oe: "o' \<in> set originalMap" "e \<in> set (snd o')" "fst o' = k" "fst e = l"
    "v = Some (TabulatedObservationSimulationTimeSettings (snd (snd e)) (fst (snd e)))"
    by (auto simp: lookup2_Nil)
  from assms oe(1) have m: "is_map originalMap" "is_map (snd o')"
    by (auto simp: is_map2_def list_all_iff)
  from oe have "(k, snd o') \<in> set originalMap" "(l, snd e) \<in> set (snd o')"
    by (metis prod.collapse)+
  with m have "map_of originalMap k = Some (snd o')" "map_of (snd o') l = Some (snd e)"
    by (simp_all add: is_map_map_of)
  then have "lookup2 originalMap k l = Some (snd e)"
    by (simp add: lookup2_def)
  with Some have "x = snd e" by simp
  with Some v oe(5) show ?thesis
    by (simp add: case_prod_beta)
qed

text \<open>
  C7. The overload of \<open>simulateObservations\<close> that takes a table of times returns what
  the overload for time settings returns on the converted table, failures included;
  and the conversion of a table puts at each observable and link ends of the table the
  tabulated settings with the times and reference link end of the table, and nothing
  elsewhere.
\<close>

theorem table_overload_is_composition:
  "simulateObservations_table originalMap observationSimulators
     = simulateObservations (createObservationSimulationTimeSettingsMap originalMap)
         observationSimulators
   \<and> (is_map2 originalMap \<longrightarrow>
        (\<forall>observable linkEnds.
           lookup2 (createObservationSimulationTimeSettingsMap originalMap) observable linkEnds =
             (case lookup2 originalMap observable linkEnds of
                None \<Rightarrow> None
              | Some (simulationTimes, linkEndType) \<Rightarrow>
                  Some (Some (TabulatedObservationSimulationTimeSettings linkEndType
                                simulationTimes)))))"
  by (simp add: simulateObservations_table_def createObservationSimulationTimeSettingsMap_lookup)

theorem table_overload_is_composition_witness:
  "is_map2 exampleTable
   \<and> lookup2 exampleTable 5 0 = Some ([0, 1, 2], 7)
   \<and> lookup2 (createObservationSimulationTimeSettingsMap exampleTable) 5 0
     = Some (Some (TabulatedObservationSimulationTimeSettings 7 [0, 1, 2]))
   \<and> simulateObservations_table exampleTable [(5, Some exampleSimulator1)]
     = simulateObservations (createObservationSimulationTimeSettingsMap exampleTable)
         [(5, Some exampleSimulator1)]
   \<and> simulateObservations_table exampleTable [(5, Some exampleSimulator1)]
     = Inr [(5, [(0, [0, 2, 4], [0, 1, 2], 7)])]"
proof -
  have h: "is_map2 exampleTable"
    by (simp add: exampleTable_def is_map2_def is_map_def)
  have l: "lookup2 exampleTable 5 0 = Some ([0, 1, 2], 7)"
    by (simp add: exampleTable_def lookup2_def)
  have c: "createObservationSimulationTimeSettingsMap exampleTable = exampleTimes"
    by (simp add: exampleTable_def createObservationSimulationTimeSettingsMap_def assign2_def
        exampleTimes_def)
  have e: "simulateObservations exampleTimes [(5, Some exampleSimulator1)]
     = Inr [(5, [(0, [0, 2, 4], [0, 1, 2], 7)])]"
    by (simp add: example_defs simulate_defs)
  from table_overload_is_composition [of exampleTable "[(5, Some exampleSimulator1)]"] h l c e
  show ?thesis
    by simp
qed

subsection \<open>Noise functions for each observable\<close>

lemma fullNoiseFunctions_observables_missing:
  "observable \<in> fst ` set observationsToSimulate \<Longrightarrow> map_of noiseFunctions observable = None \<Longrightarrow>
   fullNoiseFunctions_observables noiseFunctions observationsToSimulate acc
     = Inl MissingObservableNoiseError
   \<or> fullNoiseFunctions_observables noiseFunctions observationsToSimulate acc
     = Inl EmptyNoiseFunctionError"
proof (induction observationsToSimulate arbitrary: acc)
  case Nil
  then show ?case by simp
next
  case (Cons p rest)
  obtain k inner where p: "p = (k, inner)" by (cases p)
  show ?case
  proof (cases "map_of noiseFunctions k")
    case None
    then show ?thesis by (simp add: p)
  next
    case (Some f)
    with Cons.prems have "observable \<in> fst ` set rest" by (auto simp: p)
    from Cons.IH [OF this Cons.prems(2)] Some show ?thesis
      by (cases f) (simp_all add: p)
  qed
qed

lemma fullNoiseFunctions_observables_not_empty:
  "\<forall>e \<in> set noiseFunctions. snd e \<noteq> None \<Longrightarrow>
   fullNoiseFunctions_observables noiseFunctions observationsToSimulate acc
     \<noteq> Inl EmptyNoiseFunctionError"
proof (induction observationsToSimulate arbitrary: acc)
  case Nil
  then show ?case by simp
next
  case (Cons p rest)
  obtain k inner where p: "p = (k, inner)" by (cases p)
  show ?case
  proof (cases "map_of noiseFunctions k")
    case None
    then show ?thesis by (simp add: p)
  next
    case (Some f)
    then have "(k, f) \<in> set noiseFunctions" by (rule map_of_SomeD)
    with Cons.prems obtain g where "f = Some g" by fastforce
    with Cons.IH [OF Cons.prems] Some show ?thesis
      by (simp add: p)
  qed
qed

lemma fold_assign_keys:
  "(map_of (fold (\<lambda>e acc. assign (fst e) (g e) acc) m acc) k = None)
   = (map_of acc k = None \<and> k \<notin> fst ` set m)"
  by (induction m arbitrary: acc) (auto simp: map_of_assign)

lemma fold_assign_entry:
  "map_of (fold (\<lambda>e acc. assign (fst e) (g e) acc) m acc) k = Some v \<Longrightarrow>
   map_of acc k = Some v \<or> (\<exists>e \<in> set m. fst e = k \<and> v = g e)"
proof (induction m arbitrary: acc)
  case Nil
  then show ?case by simp
next
  case (Cons e m)
  from Cons.IH [of "assign (fst e) (g e) acc"] Cons.prems show ?case
    by (auto simp: map_of_assign split: if_splits)
qed

lemma fold_assign_set:
  "x \<in> set (fold (\<lambda>e acc. assign (fst e) (g e) acc) m acc) \<Longrightarrow>
   x \<in> set acc \<or> (\<exists>e \<in> set m. x = (fst e, g e))"
proof (induction m arbitrary: acc)
  case Nil
  then show ?case by simp
next
  case (Cons e m)
  from Cons.IH [of "assign (fst e) (g e) acc"] Cons.prems
  have "x \<in> set (assign (fst e) (g e) acc) \<or> (\<exists>e \<in> set m. x = (fst e, g e))" by simp
  with set_assign_subset [of "fst e" "g e" acc] show ?case by auto
qed

text \<open>
  C8. If an observable of the time settings has no entry in the noise map, both overloads
  with one noise function for each observable fail and return no observations: the one
  for scalar functions with \<open>MissingObservableNoiseError\<close>, the one for vector functions
  with \<open>MissingObservableNoiseError\<close> too when no entry of its map is an empty function
  object (an empty one at an earlier observable is \<open>EmptyNoiseFunctionError\<close>).
\<close>

theorem missing_observable_noise:
  assumes "observable \<in> fst ` set observationsToSimulate"
  shows "(map_of vectorNoiseFunctions observable = None \<longrightarrow>
          (simulateObservationsWithNoise_observableVector getObservableSize observationsToSimulate
              observationSimulators vectorNoiseFunctions = Inl MissingObservableNoiseError
           \<or> simulateObservationsWithNoise_observableVector getObservableSize
                observationsToSimulate observationSimulators vectorNoiseFunctions
              = Inl EmptyNoiseFunctionError)
        \<and> ((\<forall>e \<in> set vectorNoiseFunctions. snd e \<noteq> None) \<longrightarrow>
             simulateObservationsWithNoise_observableVector getObservableSize
               observationsToSimulate observationSimulators vectorNoiseFunctions
              = Inl MissingObservableNoiseError))
     \<and> (map_of scalarNoiseFunctions observable = None \<longrightarrow>
          simulateObservationsWithNoise_observableScalar getObservableSize observationsToSimulate
            observationSimulators scalarNoiseFunctions = Inl MissingObservableNoiseError)"
proof (intro conjI impI)
  assume n: "map_of vectorNoiseFunctions observable = None"
  note f = fullNoiseFunctions_observables_missing [OF assms n, of "[]"]
  then show "simulateObservationsWithNoise_observableVector getObservableSize
              observationsToSimulate observationSimulators vectorNoiseFunctions
              = Inl MissingObservableNoiseError
           \<or> simulateObservationsWithNoise_observableVector getObservableSize
                observationsToSimulate observationSimulators vectorNoiseFunctions
              = Inl EmptyNoiseFunctionError"
    by (auto simp: simulateObservationsWithNoise_observableVector_def)
  assume "\<forall>e \<in> set vectorNoiseFunctions. snd e \<noteq> None"
  from fullNoiseFunctions_observables_not_empty [OF this, of observationsToSimulate "[]"] f
  show "simulateObservationsWithNoise_observableVector getObservableSize
               observationsToSimulate observationSimulators vectorNoiseFunctions
              = Inl MissingObservableNoiseError"
    by (auto simp: simulateObservationsWithNoise_observableVector_def)
next
  assume n: "map_of scalarNoiseFunctions observable = None"
  let ?g = "\<lambda>e. Some (getIdenticallyAndIndependentlyDistributedNoise (snd e)
                        (getObservableSize (fst e)))"
  let ?v = "fold (\<lambda>e acc. assign (fst e) (?g e) acc) scalarNoiseFunctions []"
  have d: "simulateObservationsWithNoise_observableScalar getObservableSize observationsToSimulate
            observationSimulators scalarNoiseFunctions
     = simulateObservationsWithNoise_observableVector getObservableSize observationsToSimulate
            observationSimulators ?v"
    by (simp add: simulateObservationsWithNoise_observableScalar_def split_def)
  from n have "observable \<notin> fst ` set scalarNoiseFunctions"
    by (simp add: map_of_eq_None_iff)
  then have m: "map_of ?v observable = None"
    by (simp add: fold_assign_keys)
  have "\<forall>e \<in> set ?v. snd e \<noteq> None"
  proof
    fix x assume "x \<in> set ?v"
    from fold_assign_set [OF this] show "snd x \<noteq> None" by auto
  qed
  from fullNoiseFunctions_observables_not_empty [OF this, of observationsToSimulate "[]"]
    fullNoiseFunctions_observables_missing [OF assms m, of "[]"]
  show "simulateObservationsWithNoise_observableScalar getObservableSize observationsToSimulate
            observationSimulators scalarNoiseFunctions = Inl MissingObservableNoiseError"
    unfolding d by (auto simp: simulateObservationsWithNoise_observableVector_def)
qed

theorem missing_observable_noise_witness:
  "5 \<in> fst ` set exampleTimes
   \<and> map_of [(4::nat, exampleNoise1)] 5 = None
   \<and> snd (4::nat, exampleNoise1) \<noteq> None
   \<and> simulateObservationsWithNoise_observableVector exampleSizes1 exampleTimes
        [(5, Some exampleSimulator1)] [(4, exampleNoise1)] = Inl MissingObservableNoiseError
   \<and> map_of [(4::nat, exampleScalarNoise)] 5 = None
   \<and> simulateObservationsWithNoise_observableScalar exampleSizes1 exampleTimes
        [(5, Some exampleSimulator1)] [(4, exampleScalarNoise)] = Inl MissingObservableNoiseError"
proof -
  have h: "5 \<in> fst ` set exampleTimes"
    by (simp add: exampleTimes_def)
  have e: "snd (4::nat, exampleNoise1) \<noteq> None"
    by (simp add: exampleNoise1_def)
  from missing_observable_noise [OF h, of "[(4, exampleNoise1)]" exampleSizes1
      "[(5, Some exampleSimulator1)]" "[(4, exampleScalarNoise)]"] h e
  show ?thesis
    by simp
qed

subsection \<open>Zero noise\<close>

text \<open>
  What a successful \<open>simulateObservations\<close> says of an entry of its result: the simulator
  of the observable reports a size of 1, 2 or 3 and is of that size, and the entry is the
  single observation set of its model.
\<close>

lemma simulateLinkEnds_Inr:
  assumes "simulateLinkEnds sims ot le s = Inr y"
  obtains sim where "map_of sims ot = Some (Some sim)"
    "getObservationSize sim le \<in> {1, 2, 3}" "ObservationSize sim = getObservationSize sim le"
    "simulateSingleObservationSet s (observationModels sim le) = Inr y"
    "observationModels sim le \<noteq> None"
proof -
  from assms obtain sim where m: "map_of sims ot = Some (Some sim)"
    by (auto simp: simulateLinkEnds_def split: option.splits)
  note sw = assms [unfolded simulateLinkEnds_switch [OF m]]
  have k: "getObservationSize sim le \<in> {1, 2, 3}"
  proof (rule ccontr)
    assume "getObservationSize sim le \<notin> {1, 2, 3}"
    with sw show False by simp
  qed
  have c: "ObservationSize sim = getObservationSize sim le"
  proof (rule ccontr)
    assume "ObservationSize sim \<noteq> getObservationSize sim le"
    with sw k show False by (simp add: dynamic_pointer_cast_def)
  qed
  from sw k c have "simulateSingleObservationSet s (observationModels sim le) = Inr y
      \<and> observationModels sim le \<noteq> None"
    by (auto simp add: dynamic_pointer_cast_def simulateSingleObservationSet_simulator_def
        getObservationModel_def split: option.splits)
  with m k c that show ?thesis by blast
qed

lemma simulateSingleObservationSet_Inr:
  assumes "simulateSingleObservationSet s m = Inr (v, ts, lt)"
  shows "(v = [] \<and> ts = []) \<or> (\<exists>model. m = Some model \<and> v = concat (map (\<lambda>t. model t lt) ts))"
  using assms
  by (auto simp: simulateSingleObservationSet_def
      simulateObservationsWithCheckAndLinkEndIdOutput_def
      split: option.splits ObservationSimulationTimeSettings.splits if_splits)

lemma length_concat_uniform:
  "\<forall>t. length (f t) = n \<Longrightarrow> length (concat (map f ts)) = length ts * n"
  by (induction ts) simp_all

lemma sdiv_exact: "0 < d \<Longrightarrow> (int n * d) sdiv d = int n"
  by (cases "n = 0") (simp_all add: signed_divide_int_def sgn_if abs_mult)

lemma map2_add_zero:
  fixes xs :: "'a::{plus, zero} list"
  shows "length xs = n \<Longrightarrow> \<forall>x \<in> set xs. x + 0 = x \<Longrightarrow> map2 (+) xs (replicate n 0) = xs"
  by (induction xs arbitrary: n) auto

lemma segmentAdd_zero:
  fixes v :: "'a::{plus, zero} list"
  assumes "0 < d" "(i + 1) * nat d \<le> length v" "\<forall>x \<in> set v. x + 0 = x"
  shows "segmentAdd v (int i * d) d (replicate (nat d) 0) = Inr v"
proof -
  from assms(1) have st: "nat (int i * d) = i * nat d"
    by (simp add: nat_mult_distrib)
  from assms(1) have "int ((i + 1) * nat d) = int i * d + d"
    by (simp add: algebra_simps)
  with assms(2) have r: "int i * d + d \<le> int (length v)"
    by (metis of_nat_le_iff)
  from assms(2) have l: "length (take (nat d) (drop (i * nat d) v)) = nat d"
    by simp
  have "set (take (nat d) (drop (i * nat d) v)) \<subseteq> set v"
    by (meson set_take_subset set_drop_subset subset_trans)
  with assms(3) have z: "\<forall>x \<in> set (take (nat d) (drop (i * nat d) v)). x + 0 = x"
    by blast
  have "take (nat d) (drop (i * nat d) v) @ drop (i * nat d + nat d) v = drop (i * nat d) v"
    by (simp add: add.commute [of "i * nat d"] flip: drop_drop)
  then have "take (i * nat d) v @ take (nat d) (drop (i * nat d) v) @ drop (i * nat d + nat d) v = v"
    by simp
  moreover from assms(1) have "0 \<le> int i * d"
    by simp
  ultimately show ?thesis
    using assms(1) r by (simp add: segmentAdd_def st map2_add_zero [OF l z] not_less)
qed

lemma addNoise_zero:
  fixes v :: "'a::{plus, zero} list"
  assumes "0 < d" "\<forall>t. callNoise f t = Inr (replicate (nat d) 0)" "\<forall>x \<in> set v. x + 0 = x"
  shows "(i + length ts) * nat d \<le> length v \<Longrightarrow> addNoise d f i ts v = Inr v"
proof (induction ts arbitrary: i)
  case Nil
  then show ?case by simp
next
  case (Cons t ts)
  from Cons.prems have "(i + 1) * nat d \<le> length v"
    by (simp add: algebra_simps)
  from segmentAdd_zero [OF assms(1) this assms(3)]
  have s: "segmentAdd v (int i * d) d (replicate (nat d) 0) = Inr v" .
  from Cons.prems have "(Suc i + length ts) * nat d \<le> length v" by simp
  from Cons.IH [OF this] assms s show ?case
    by (cases "i = 0") auto
qed

lemma addNoiseToLinkEnds_zero:
  fixes v :: "'a::{plus, zero} list"
  assumes "0 < d" "length v = length ts * nat d" "lookup2 nf ot le = Some f"
    "\<forall>t. callNoise f t = Inr (replicate (nat d) 0)" "\<forall>x \<in> set v. x + 0 = x"
  shows "addNoiseToLinkEnds d nf ot le (v, ts, lt) = Inr (v, ts, lt)"
proof -
  from assms(3) obtain inner where "map_of nf ot = Some inner" "map_of inner le = Some f"
    by (auto simp: lookup2_def split: option.splits)
  moreover from assms(1,2) have "int (length ts) = int (length v) sdiv d"
    by (simp add: sdiv_exact)
  moreover from assms(2) have "(0 + length ts) * nat d \<le> length v" by simp
  from addNoise_zero [OF assms(1,4,5) this] have "addNoise d f 0 ts v = Inr v" .
  ultimately show ?thesis
    using assms(1) by (simp add: addNoiseToLinkEnds_def)
qed

lemma noise_free_entry_consistent:
  assumes ok: "simulateObservations s sims = Inr free"
    and wf: "\<forall>ot sim le model t lt. map_of sims ot = Some (Some sim)
          \<and> observationModels sim le = Some model
          \<longrightarrow> int (length (model t lt)) = ObservationSize sim"
    and cat: "\<forall>ot le sim. (ot, le) \<in> keyPairs s \<and> map_of sims ot = Some (Some sim)
          \<longrightarrow> getObservationSize sim le = getObservableSize ot"
    and y: "lookup2 free ot le = Some (v, ts, lt)"
  shows "0 < getObservableSize ot \<and> length v = length ts * nat (getObservableSize ot)"
proof -
  from simulateObservations_entry [OF ok y] obtain inner st where
    i: "(ot, inner) \<in> set s" "(le, st) \<in> set inner"
    and l: "simulateLinkEnds sims ot le st = Inr (v, ts, lt)"
    by blast
  from i have kp: "(ot, le) \<in> keyPairs s" by (auto simp: keyPairs_def)
  from l obtain sim where sim: "map_of sims ot = Some (Some sim)"
    "getObservationSize sim le \<in> {1, 2, 3}" "ObservationSize sim = getObservationSize sim le"
    "simulateSingleObservationSet st (observationModels sim le) = Inr (v, ts, lt)"
    by (rule simulateLinkEnds_Inr)
  from cat kp sim(1) have c: "getObservationSize sim le = getObservableSize ot" by blast
  with sim(2) have pos: "0 < getObservableSize ot" by auto
  from simulateSingleObservationSet_Inr [OF sim(4)]
  have "length v = length ts * nat (getObservableSize ot)"
  proof
    assume "v = [] \<and> ts = []"
    then show ?thesis by simp
  next
    assume "\<exists>model. observationModels sim le = Some model
        \<and> v = concat (map (\<lambda>t. model t lt) ts)"
    then obtain model where m: "observationModels sim le = Some model"
      "v = concat (map (\<lambda>t. model t lt) ts)" by blast
    from wf sim(1) m(1) have "int (length (model t lt)) = ObservationSize sim" for t
      by blast
    with sim(3) c have "\<forall>t. length (model t lt) = nat (getObservableSize ot)"
      by (metis nat_int)
    from length_concat_uniform [OF this] m(2) show ?thesis by simp
  qed
  with pos show ?thesis by simp
qed

lemma zero_noise_core:
  fixes free :: "('ot::linorder, 'le::linorder, 't, 'a::{plus, zero}) ObservationsMap"
  assumes ok: "simulateObservations s sims = Inr free"
    and wf: "\<forall>ot sim le model t lt. map_of sims ot = Some (Some sim)
          \<and> observationModels sim le = Some model
          \<longrightarrow> int (length (model t lt)) = ObservationSize sim"
    and cat: "\<forall>ot le sim. (ot, le) \<in> keyPairs s \<and> map_of sims ot = Some (Some sim)
          \<longrightarrow> getObservationSize sim le = getObservableSize ot"
    and nz: "\<forall>ot le v ts lt. lookup2 free ot le = Some (v, ts, lt)
          \<longrightarrow> (\<forall>x \<in> set v. x + 0 = x)"
    and z: "\<And>ot le. (ot, le) \<in> keyPairs s \<Longrightarrow> 0 < getObservableSize ot \<Longrightarrow>
          \<exists>f. lookup2 nf ot le = Some f
            \<and> (\<forall>t. callNoise f t = Inr (replicate (nat (getObservableSize ot)) 0))"
  shows "simulateObservationsWithNoise getObservableSize s sims nf = Inr free"
proof -
  note m2 = simulateObservations_is_map2 [OF ok]
  have "addNoiseToLinkEnds (getObservableSize (fst x)) nf (fst x) (fst a) (snd a) = Inr (snd a)"
    if x: "x \<in> set free" and a: "a \<in> set (snd x)" for x a
  proof -
    obtain v ts lt where sa: "snd a = (v, ts, lt)" by (cases "snd a")
    from m2 x have "is_map free" "is_map (snd x)"
      by (auto simp: is_map2_def list_all_iff)
    moreover from x a have "(fst x, snd x) \<in> set free" "(fst a, snd a) \<in> set (snd x)"
      by simp_all
    ultimately have "map_of free (fst x) = Some (snd x)" "map_of (snd x) (fst a) = Some (snd a)"
      by (simp_all add: is_map_map_of)
    then have y: "lookup2 free (fst x) (fst a) = Some (v, ts, lt)"
      by (simp add: lookup2_def sa)
    from noise_free_entry_consistent [OF ok wf cat y]
    have c: "0 < getObservableSize (fst x)" "length v = length ts * nat (getObservableSize (fst x))"
      by simp_all
    from y keyPairs_lookup2 [OF m2] have "(fst x, fst a) \<in> keyPairs free" by auto
    with simulateObservations_keys [OF ok] have "(fst x, fst a) \<in> keyPairs s" by simp
    from z [OF this c(1)] obtain f where "lookup2 nf (fst x) (fst a) = Some f"
      "\<forall>t. callNoise f t = Inr (replicate (nat (getObservableSize (fst x))) 0)"
      by blast
    then have "lookup2 nf (fst x) (fst a) = Some f"
      "\<forall>t. callNoise f t = Inr (replicate (nat (getObservableSize (fst x))) 0)"
      by simp_all
    moreover from nz y have "\<forall>x \<in> set v. x + 0 = x"
      by blast
    ultimately have "addNoiseToLinkEnds (getObservableSize (fst x)) nf (fst x) (fst a) (v, ts, lt)
        = Inr (v, ts, lt)"
      by (intro addNoiseToLinkEnds_zero [OF c])
    then show ?thesis
      by (simp add: sa)
  qed
  moreover from m2 have "sorted_wrt (<) (map fst [] @ map fst free)"
    "list_all (\<lambda>x. is_map (snd x)) free"
    by (auto simp: is_map2_def is_map_def list_all_iff)
  ultimately have "simulateObservationsWithNoise_observables getObservableSize nf free []
      = Inr ([] @ free)"
    by (intro simulateObservationsWithNoise_observables_same) auto
  with ok show ?thesis
    by (simp add: simulateObservationsWithNoise_def)
qed

lemma callNoise_zeroVectorNoise:
  "callNoise (zeroVectorNoise d) t = Inr (replicate (nat d) 0)"
  by (simp add: callNoise_def zeroVectorNoise_def)

lemma callNoise_zeroScalarNoise:
  "0 < d \<Longrightarrow>
   callNoise (Some (getIdenticallyAndIndependentlyDistributedNoise zeroScalarNoise d)) t
     = Inr (replicate (nat d) 0)"
  by (simp add: callNoise_def getIdenticallyAndIndependentlyDistributedNoise_def
      zeroScalarNoise_def)

lemma fold_assign_image:
  "fst ` set (fold (\<lambda>e acc. assign (fst e) (g e) acc) m acc) = fst ` set acc \<union> fst ` set m"
proof -
  have "(k \<in> fst ` set (fold (\<lambda>e acc. assign (fst e) (g e) acc) m acc))
      = (k \<in> fst ` set acc \<union> fst ` set m)" for k
    using fold_assign_keys [of g m acc k] by (simp add: map_of_eq_None_iff) blast
  then show ?thesis by blast
qed

lemma fullNoiseFunctions_observables_fold:
  "\<forall>k \<in> fst ` set s. \<exists>f. map_of pnf k = Some (Some f) \<Longrightarrow>
   fullNoiseFunctions_observables pnf s acc =
     Inr (fold (\<lambda>p acc. fold (\<lambda>e acc. assign2 (fst p) (fst e) (the (map_of pnf (fst p))) acc)
                  (snd p) acc) s acc)"
proof (induction s arbitrary: acc)
  case Nil
  then show ?case by simp
next
  case (Cons p s)
  obtain k inner where p: "p = (k, inner)" by (cases p)
  from Cons.prems obtain f where f: "map_of pnf k = Some (Some f)" by (auto simp: p)
  from Cons.prems have "\<forall>k \<in> fst ` set s. \<exists>f. map_of pnf k = Some (Some f)" by simp
  from Cons.IH [OF this] f show ?case
    by (simp add: p split_def)
qed

lemma zero_noise_observableVector:
  fixes free :: "('ot::linorder, 'le::linorder, 't, 'a::{plus, zero}) ObservationsMap"
  assumes ok: "simulateObservations s sims = Inr free"
    and wf: "\<forall>ot sim le model t lt. map_of sims ot = Some (Some sim)
          \<and> observationModels sim le = Some model
          \<longrightarrow> int (length (model t lt)) = ObservationSize sim"
    and cat: "\<forall>ot le sim. (ot, le) \<in> keyPairs s \<and> map_of sims ot = Some (Some sim)
          \<longrightarrow> getObservationSize sim le = getObservableSize ot"
    and nz: "\<forall>ot le v ts lt. lookup2 free ot le = Some (v, ts, lt)
          \<longrightarrow> (\<forall>x \<in> set v. x + 0 = x)"
    and z: "\<And>k. k \<in> fst ` set s \<Longrightarrow>
          \<exists>f. map_of pnf k = Some (Some f)
            \<and> (0 < getObservableSize k \<longrightarrow>
                 (\<forall>t. callNoise (Some f) t = Inr (replicate (nat (getObservableSize k)) 0)))"
  shows "simulateObservationsWithNoise_observableVector getObservableSize s sims pnf = Inr free"
proof -
  let ?full = "fold (\<lambda>p acc. fold (\<lambda>e acc. assign2 (fst p) (fst e) (the (map_of pnf (fst p))) acc)
                  (snd p) acc) s []"
  from z have "\<forall>k \<in> fst ` set s. \<exists>f. map_of pnf k = Some (Some f)" by blast
  from fullNoiseFunctions_observables_fold [OF this]
  have full: "fullNoiseFunctions_observables pnf s [] = Inr ?full" .
  have "\<exists>f. lookup2 ?full ot le = Some f
            \<and> (\<forall>t. callNoise f t = Inr (replicate (nat (getObservableSize ot)) 0))"
    if kp: "(ot, le) \<in> keyPairs s" and pos: "0 < getObservableSize ot" for ot le
  proof -
    from kp have "lookup2 ?full ot le \<noteq> None"
      by (simp add: fold_fold_assign2_keys)
    then obtain v where v: "lookup2 ?full ot le = Some v" by blast
    from fold_fold_assign2_entry [OF v] have v': "v = the (map_of pnf ot)"
      by (auto simp: lookup2_Nil)
    from kp have "ot \<in> fst ` set s" by (force simp: keyPairs_def)
    from z [OF this] pos v' v show ?thesis by auto
  qed
  from zero_noise_core [OF ok wf cat nz this] full show ?thesis
    by (simp add: simulateObservationsWithNoise_observableVector_def)
qed

lemma zero_noise_observableScalar:
  fixes free :: "('ot::linorder, 'le::linorder, 't, 'a::{plus, zero}) ObservationsMap"
  assumes ok: "simulateObservations s sims = Inr free"
    and wf: "\<forall>ot sim le model t lt. map_of sims ot = Some (Some sim)
          \<and> observationModels sim le = Some model
          \<longrightarrow> int (length (model t lt)) = ObservationSize sim"
    and cat: "\<forall>ot le sim. (ot, le) \<in> keyPairs s \<and> map_of sims ot = Some (Some sim)
          \<longrightarrow> getObservationSize sim le = getObservableSize ot"
    and nz: "\<forall>ot le v ts lt. lookup2 free ot le = Some (v, ts, lt)
          \<longrightarrow> (\<forall>x \<in> set v. x + 0 = x)"
    and zero: "\<forall>e \<in> set snf. snd e = zeroScalarNoise"
    and keys: "fst ` set s \<subseteq> fst ` set snf"
  shows "simulateObservationsWithNoise_observableScalar getObservableSize s sims snf = Inr free"
proof -
  let ?g = "\<lambda>e. Some (getIdenticallyAndIndependentlyDistributedNoise (snd e)
                        (getObservableSize (fst e)))"
  let ?v = "fold (\<lambda>e acc. assign (fst e) (?g e) acc) snf []"
  have d: "simulateObservationsWithNoise_observableScalar getObservableSize s sims snf
     = simulateObservationsWithNoise_observableVector getObservableSize s sims ?v"
    by (simp add: simulateObservationsWithNoise_observableScalar_def split_def)
  have "\<exists>f. map_of ?v k = Some (Some f)
            \<and> (0 < getObservableSize k \<longrightarrow>
                 (\<forall>t. callNoise (Some f) t = Inr (replicate (nat (getObservableSize k)) 0)))"
    if "k \<in> fst ` set s" for k
  proof -
    from that keys have "map_of ?v k \<noteq> None"
      by (auto simp: fold_assign_keys)
    then obtain v where v: "map_of ?v k = Some v" by blast
    from fold_assign_entry [OF v] obtain e where "e \<in> set snf" "fst e = k" "v = ?g e"
      by auto
    with zero have "v = Some (getIdenticallyAndIndependentlyDistributedNoise zeroScalarNoise
        (getObservableSize k))" by auto
    with v show ?thesis
      by (simp add: callNoise_zeroScalarNoise)
  qed
  from zero_noise_observableVector [OF ok wf cat nz this] show ?thesis
    by (simp only: d)
qed

lemma zero_noise_linkEndsScalar:
  fixes free :: "('ot::linorder, 'le::linorder, 't, 'a::{plus, zero}) ObservationsMap"
  assumes ok: "simulateObservations s sims = Inr free"
    and wf: "\<forall>ot sim le model t lt. map_of sims ot = Some (Some sim)
          \<and> observationModels sim le = Some model
          \<longrightarrow> int (length (model t lt)) = ObservationSize sim"
    and cat: "\<forall>ot le sim. (ot, le) \<in> keyPairs s \<and> map_of sims ot = Some (Some sim)
          \<longrightarrow> getObservationSize sim le = getObservableSize ot"
    and nz: "\<forall>ot le v ts lt. lookup2 free ot le = Some (v, ts, lt)
          \<longrightarrow> (\<forall>x \<in> set v. x + 0 = x)"
    and zero: "\<forall>p \<in> set snf. \<forall>e \<in> set (snd p). snd e = zeroScalarNoise"
    and keys: "keyPairs s \<subseteq> keyPairs snf"
  shows "simulateObservationsWithNoise_linkEndsScalar getObservableSize s sims snf = Inr free"
proof -
  let ?g = "\<lambda>p e. Some (getIdenticallyAndIndependentlyDistributedNoise (snd e)
                        (getObservableSize (fst p)))"
  let ?v = "fold (\<lambda>p acc. fold (\<lambda>e acc. assign2 (fst p) (fst e) (?g p e) acc) (snd p) acc) snf []"
  have d: "simulateObservationsWithNoise_linkEndsScalar getObservableSize s sims snf
     = simulateObservationsWithNoise getObservableSize s sims ?v"
    by (simp add: simulateObservationsWithNoise_linkEndsScalar_def split_def)
  have "\<exists>f. lookup2 ?v ot le = Some f
            \<and> (\<forall>t. callNoise f t = Inr (replicate (nat (getObservableSize ot)) 0))"
    if kp: "(ot, le) \<in> keyPairs s" and pos: "0 < getObservableSize ot" for ot le
  proof -
    from kp keys have "lookup2 ?v ot le \<noteq> None"
      by (auto simp: fold_fold_assign2_keys)
    then obtain v where v: "lookup2 ?v ot le = Some v" by blast
    from fold_fold_assign2_entry [OF v] obtain p e where
      "p \<in> set snf" "e \<in> set (snd p)" "fst p = ot" "v = ?g p e"
      by (auto simp: lookup2_Nil)
    with zero have "v = Some (getIdenticallyAndIndependentlyDistributedNoise zeroScalarNoise
        (getObservableSize ot))" by auto
    with v pos show ?thesis
      by (simp add: callNoise_zeroScalarNoise)
  qed
  from zero_noise_core [OF ok wf cat nz this] show ?thesis
    by (simp only: d)
qed

lemma zero_noise_single:
  fixes free :: "('ot::linorder, 'le::linorder, 't, 'a::{plus, zero}) ObservationsMap"
  assumes ok: "simulateObservations s sims = Inr free"
    and wf: "\<forall>ot sim le model t lt. map_of sims ot = Some (Some sim)
          \<and> observationModels sim le = Some model
          \<longrightarrow> int (length (model t lt)) = ObservationSize sim"
    and cat: "\<forall>ot le sim. (ot, le) \<in> keyPairs s \<and> map_of sims ot = Some (Some sim)
          \<longrightarrow> getObservationSize sim le = getObservableSize ot"
    and nz: "\<forall>ot le v ts lt. lookup2 free ot le = Some (v, ts, lt)
          \<longrightarrow> (\<forall>x \<in> set v. x + 0 = x)"
  shows "simulateObservationsWithNoise_single getObservableSize s sims zeroScalarNoise = Inr free"
proof -
  let ?l = "fold (\<lambda>e acc. assign (fst e) zeroScalarNoise acc) s []"
  have d: "simulateObservationsWithNoise_single getObservableSize s sims zeroScalarNoise
     = simulateObservationsWithNoise_observableScalar getObservableSize s sims ?l"
    by (simp add: simulateObservationsWithNoise_single_def split_def)
  have "\<forall>e \<in> set ?l. snd e = zeroScalarNoise"
  proof
    fix x assume "x \<in> set ?l"
    from fold_assign_set [OF this] show "snd x = zeroScalarNoise" by auto
  qed
  moreover have "fst ` set s \<subseteq> fst ` set ?l"
    by (simp add: fold_assign_image)
  ultimately show ?thesis
    unfolding d by (rule zero_noise_observableScalar [OF ok wf cat nz])
qed

text \<open>
  The doubles that adding zero leaves as they are: all but the negative zero. A model
  that returns the negative zero is not reproduced by zero noise: the sum of the
  negative zero and zero is the positive zero.
\<close>

lemma double_plus_zero_iff:
  "(x + (0::double) = x) = (\<forall>s e. x = Finite s 0 e \<longrightarrow> \<not> s \<and> e = - 1074)"
  by (cases x) (auto simp: plus_double_def zero_double_def)

lemma zero_noise_negative_zero:
  "simulateObservations exampleDoubleTimes [(5, Some exampleNegativeZeroSimulator)]
     = Inr [(5, [(0, [Finite True 0 (- 1074), Finite True 0 (- 1074), Finite True 0 (- 1074)],
              [0, double1, double2], 7)])]
   \<and> simulateObservationsWithNoise_single exampleSizes1 exampleDoubleTimes
        [(5, Some exampleNegativeZeroSimulator)] zeroScalarNoise
     = Inr [(5, [(0, [Finite False 0 (- 1074), Finite False 0 (- 1074), Finite False 0 (- 1074)],
              [0, double1, double2], 7)])]"
proof -
  have z: "Finite True 0 (- 1074) + Finite False 0 (- 1074) = Finite False 0 (- 1074)"
    by (simp add: plus_double_def)
  show ?thesis
    by (simp add: exampleDoubleTimes_def exampleNegativeZeroSimulator_def exampleSizes1_def
        simulate_defs noise_defs zeroScalarNoise_def
        simulateObservationsWithNoise_single_def simulateObservationsWithNoise_observableScalar_def
        simulateObservationsWithNoise_observableVector_def
        getIdenticallyAndIndependentlyDistributedNoise_def zero_double_def z)
qed

text \<open>
  C2, as stated: whenever the noise-free \<open>simulateObservations\<close> succeeds, constant-zero
  noise through any of the four ways returns the noise-free observations. It does not
  when a simulator is not of the size of its observable: \<open>exampleSimulator1\<close>, of size
  1, simulates three values for three times; for an observable of size 2 the check of
  the sample count compares 3 with 3 / 2 and every call with noise fails.
\<close>

theorem zero_noise_fails_on_size_mismatch:
  "simulateObservations exampleTimes [(5, Some exampleSimulator1)]
     = Inr [(5, [(0, [0, 2, 4], [0, 1, 2], 7)])]
   \<and> simulateObservationsWithNoise exampleSizes2 exampleTimes [(5, Some exampleSimulator1)]
        [(5, [(0, zeroVectorNoise 2)])]
     = Inl InconsistentSampleCountError
   \<and> simulateObservationsWithNoise_observableScalar exampleSizes2 exampleTimes
        [(5, Some exampleSimulator1)] [(5, zeroScalarNoise)]
     = Inl InconsistentSampleCountError
   \<and> simulateObservationsWithNoise_linkEndsScalar exampleSizes2 exampleTimes
        [(5, Some exampleSimulator1)] [(5, [(0, zeroScalarNoise)])]
     = Inl InconsistentSampleCountError
   \<and> simulateObservationsWithNoise_single exampleSizes2 exampleTimes
        [(5, Some exampleSimulator1)] zeroScalarNoise
     = Inl InconsistentSampleCountError"
  by (simp add: example_defs simulate_defs noise_defs zeroScalarNoise_def zeroVectorNoise_def
      simulateObservationsWithNoise_single_def simulateObservationsWithNoise_observableScalar_def
      simulateObservationsWithNoise_observableVector_def
      simulateObservationsWithNoise_linkEndsScalar_def)

text \<open>
  C2, amended. Let the noise-free \<open>simulateObservations\<close> succeed, with simulators whose
  models return vectors of the simulator's size and whose reported sizes, for the
  observables and link ends of the time settings, are the sizes of the observable
  table, and let every noise-free value \<open>x\<close> be one that adding zero leaves as it is,
  \<open>x + 0 = x\<close> (of the doubles, every value but the negative zero). Then each of the four
  ways to give the noise returns exactly the noise-free observations when the noise is
  constant zero: zero vectors of the observable's size for each observable and link ends
  of the time settings; the zero scalar function for each observable; the zero scalar
  function for each observable and link ends; the single zero scalar function.
\<close>

theorem zero_noise_is_noiseless:
  fixes noiseFree :: "('ot::linorder, 'le::linorder, 't, 'a::{plus, zero}) ObservationsMap"
  assumes "simulateObservations observationsToSimulate observationSimulators = Inr noiseFree"
    and "\<forall>observable simulator linkEnds model t linkEndType.
           map_of observationSimulators observable = Some (Some simulator)
           \<and> observationModels simulator linkEnds = Some model
           \<longrightarrow> int (length (model t linkEndType)) = ObservationSize simulator"
    and "\<forall>observable linkEnds simulator.
           (observable, linkEnds) \<in> keyPairs observationsToSimulate
           \<and> map_of observationSimulators observable = Some (Some simulator)
           \<longrightarrow> getObservationSize simulator linkEnds = getObservableSize observable"
    and "\<forall>observable linkEnds nominalValues nominalTimes linkEndType.
           lookup2 noiseFree observable linkEnds = Some (nominalValues, nominalTimes, linkEndType)
           \<longrightarrow> (\<forall>x \<in> set nominalValues. x + 0 = x)"
  shows "((\<forall>observable linkEnds. (observable, linkEnds) \<in> keyPairs observationsToSimulate
            \<longrightarrow> lookup2 vectorNoiseFunctions observable linkEnds
                  = Some (zeroVectorNoise (getObservableSize observable)))
          \<longrightarrow> simulateObservationsWithNoise getObservableSize observationsToSimulate
                observationSimulators vectorNoiseFunctions = Inr noiseFree)
     \<and> ((\<forall>e \<in> set observableNoiseFunctions. snd e = zeroScalarNoise)
          \<and> fst ` set observationsToSimulate \<subseteq> fst ` set observableNoiseFunctions
          \<longrightarrow> simulateObservationsWithNoise_observableScalar getObservableSize
                observationsToSimulate observationSimulators observableNoiseFunctions
                = Inr noiseFree)
     \<and> ((\<forall>p \<in> set linkEndsNoiseFunctions. \<forall>e \<in> set (snd p). snd e = zeroScalarNoise)
          \<and> keyPairs observationsToSimulate \<subseteq> keyPairs linkEndsNoiseFunctions
          \<longrightarrow> simulateObservationsWithNoise_linkEndsScalar getObservableSize
                observationsToSimulate observationSimulators linkEndsNoiseFunctions
                = Inr noiseFree)
     \<and> simulateObservationsWithNoise_single getObservableSize observationsToSimulate
          observationSimulators zeroScalarNoise = Inr noiseFree"
proof (intro conjI impI)
  assume z: "\<forall>observable linkEnds. (observable, linkEnds) \<in> keyPairs observationsToSimulate
            \<longrightarrow> lookup2 vectorNoiseFunctions observable linkEnds
                  = Some (zeroVectorNoise (getObservableSize observable))"
  have "\<exists>f. lookup2 vectorNoiseFunctions ot le = Some f
            \<and> (\<forall>t. callNoise f t = Inr (replicate (nat (getObservableSize ot)) 0))"
    if "(ot, le) \<in> keyPairs observationsToSimulate" for ot le
    using z that by (simp add: callNoise_zeroVectorNoise)
  from zero_noise_core [OF assms this]
  show "simulateObservationsWithNoise getObservableSize observationsToSimulate
                observationSimulators vectorNoiseFunctions = Inr noiseFree"
    by simp
next
  assume "(\<forall>e \<in> set observableNoiseFunctions. snd e = zeroScalarNoise)
          \<and> fst ` set observationsToSimulate \<subseteq> fst ` set observableNoiseFunctions"
  then show "simulateObservationsWithNoise_observableScalar getObservableSize
                observationsToSimulate observationSimulators observableNoiseFunctions
                = Inr noiseFree"
    by (intro zero_noise_observableScalar [OF assms]) simp_all
next
  assume "(\<forall>p \<in> set linkEndsNoiseFunctions. \<forall>e \<in> set (snd p). snd e = zeroScalarNoise)
          \<and> keyPairs observationsToSimulate \<subseteq> keyPairs linkEndsNoiseFunctions"
  then show "simulateObservationsWithNoise_linkEndsScalar getObservableSize
                observationsToSimulate observationSimulators linkEndsNoiseFunctions
                = Inr noiseFree"
    by (intro zero_noise_linkEndsScalar [OF assms]) simp_all
next
  show "simulateObservationsWithNoise_single getObservableSize observationsToSimulate
          observationSimulators zeroScalarNoise = Inr noiseFree"
    by (rule zero_noise_single [OF assms])
qed

theorem zero_noise_is_noiseless_witness:
  "simulateObservations exampleDoubleTimes [(5, Some exampleDoubleSimulator)]
     = Inr [(5, [(0, [0, double2, double4], [0, double1, double2], 7)])]
   \<and> 0 + (0::double) = 0 \<and> double2 + 0 = double2 \<and> double4 + 0 = double4
   \<and> simulateObservationsWithNoise exampleSizes1 exampleDoubleTimes
        [(5, Some exampleDoubleSimulator)] [(5, [(0, zeroVectorNoise 1)])]
     = Inr [(5, [(0, [0, double2, double4], [0, double1, double2], 7)])]
   \<and> simulateObservationsWithNoise_observableScalar exampleSizes1 exampleDoubleTimes
        [(5, Some exampleDoubleSimulator)] [(5, zeroScalarNoise)]
     = Inr [(5, [(0, [0, double2, double4], [0, double1, double2], 7)])]
   \<and> simulateObservationsWithNoise_linkEndsScalar exampleSizes1 exampleDoubleTimes
        [(5, Some exampleDoubleSimulator)] [(5, [(0, zeroScalarNoise)])]
     = Inr [(5, [(0, [0, double2, double4], [0, double1, double2], 7)])]
   \<and> simulateObservationsWithNoise_single exampleSizes1 exampleDoubleTimes
        [(5, Some exampleDoubleSimulator)] zeroScalarNoise
     = Inr [(5, [(0, [0, double2, double4], [0, double1, double2], 7)])]"
proof -
  have ok: "simulateObservations exampleDoubleTimes [(5, Some exampleDoubleSimulator)]
     = Inr [(5, [(0, [0, double2, double4], [0, double1, double2], 7)])]"
    by (simp add: exampleDoubleTimes_def exampleDoubleSimulator_def simulate_defs double_sums)
  have wf: "\<forall>observable simulator linkEnds model t linkEndType.
           map_of [(5::nat, Some exampleDoubleSimulator)] observable = Some (Some simulator)
           \<and> observationModels simulator linkEnds = Some model
           \<longrightarrow> int (length (model t linkEndType)) = ObservationSize simulator"
    by (auto simp: exampleDoubleSimulator_def split: if_splits)
  have cat: "\<forall>observable linkEnds simulator.
           (observable, linkEnds) \<in> keyPairs exampleDoubleTimes
           \<and> map_of [(5::nat, Some exampleDoubleSimulator)] observable = Some (Some simulator)
           \<longrightarrow> getObservationSize simulator linkEnds = exampleSizes1 observable"
    by (auto simp: exampleDoubleSimulator_def exampleSizes1_def split: if_splits)
  have nz: "\<forall>observable linkEnds nominalValues nominalTimes linkEndType.
           lookup2 [(5::nat, [(0::nat, [0, double2, double4], [0, double1, double2], 7::int)])]
             observable linkEnds = Some (nominalValues, nominalTimes, linkEndType)
           \<longrightarrow> (\<forall>x \<in> set nominalValues. x + 0 = x)"
    by (auto simp: lookup2_def double_plus_zero split: if_splits)
  have k: "keyPairs exampleDoubleTimes = {(5, 0)}"
    by (auto simp: keyPairs_def exampleDoubleTimes_def)
  have k2: "keyPairs [(5::nat, [(0::nat, zeroScalarNoise :: (double, double) ScalarNoise)])]
      = {(5, 0)}"
    by (auto simp: keyPairs_def)
  have a1: "\<forall>observable linkEnds. (observable, linkEnds) \<in> keyPairs exampleDoubleTimes
            \<longrightarrow> lookup2 [(5::nat, [(0::nat, zeroVectorNoise 1 :: (double, double) VectorNoise)])]
                    observable linkEnds
                  = Some (zeroVectorNoise (exampleSizes1 observable))"
    by (simp add: k lookup2_def exampleSizes1_def)
  have a2: "(\<forall>e \<in> set [(5::nat, zeroScalarNoise :: (double, double) ScalarNoise)].
               snd e = zeroScalarNoise)
          \<and> fst ` set exampleDoubleTimes
              \<subseteq> fst ` set [(5::nat, zeroScalarNoise :: (double, double) ScalarNoise)]"
    by (simp add: exampleDoubleTimes_def)
  have a3: "(\<forall>p \<in> set [(5::nat, [(0::nat, zeroScalarNoise :: (double, double) ScalarNoise)])].
               \<forall>e \<in> set (snd p). snd e = zeroScalarNoise)
          \<and> keyPairs exampleDoubleTimes
              \<subseteq> keyPairs [(5::nat, [(0::nat, zeroScalarNoise :: (double, double) ScalarNoise)])]"
    by (simp add: k k2)
  have p: "0 + (0::double) = 0" "double2 + 0 = double2" "double4 + 0 = double4"
    by (simp_all add: double_plus_zero)
  from zero_noise_is_noiseless [OF ok wf cat nz, of "[(5, [(0, zeroVectorNoise 1)])]"
      "[(5, zeroScalarNoise)]" "[(5, [(0, zeroScalarNoise)])]"] a1 a2 a3 ok p
  show ?thesis
    by blast
qed

end
